theory Spec2Isabelle
  imports Main "HOL-Library.AList"
begin

section \<open>Data model\<close>

text \<open>
  The engine of \<^verbatim>\<open>src/core/version-control.ts\<close> works on three tables of a
  PostgreSQL store (schema in \<^verbatim>\<open>database/schema.sql\<close>): \<^verbatim>\<open>context_versions\<close>,
  \<^verbatim>\<open>business_state\<close> and \<^verbatim>\<open>context_changes\<close>. A table is a list of rows in
  insertion order. Identifiers (UUIDs) and hashes are strings. Times are instants counted
  in microseconds, the resolution of the store's timestamps; a JavaScript \<^verbatim>\<open>Date\<close>
  holds whole milliseconds, so a time written by the engine is a multiple of 1000 and
  \<^verbatim>\<open>new Date\<close> of a time read from the store drops its microseconds.

  A \<^verbatim>\<open>field_value\<close> is a JSON value. Numbers are integers here, and an object is the
  list of its members in the store's canonical order, so that equality of JSONB values is
  equality of terms.
\<close>

datatype json =
    JNull
  | JBool bool
  | JNum int
  | JStr string
  | JArr "json list"
  | JObj "(string \<times> json) list"

datatype field_type = FText | FNumber | FJson | FArray | FBoolean | FDate

datatype source = Manual | ApiTwitter | ApiCrm | ApiWebhook | ClaudeChat

datatype change_type = Create | Update | Delete

record ContextVersion =
  id_v :: string
  user_id :: string
  version_hash :: string
  commit_message :: string
  created_at :: nat
  is_current :: bool
  parent_version_id :: "string option"
  author :: string
  tags :: "string list"

record BusinessStateField =
  version_id :: string
  field_name :: string
  field_value :: json
  field_type :: field_type
  source :: source
  updated_at :: nat

record ContextChange =
  version_id_ch :: string
  field_name_ch :: string
  old_value :: json
  new_value :: json
  change_type :: change_type
  source_ch :: source
  created_at_ch :: nat

text \<open>One element of \<^verbatim>\<open>CommitRequest.changes\<close>, and the request itself.\<close>

record FieldUpdate =
  field_name_u :: string
  field_value_u :: json
  field_type_u :: field_type
  source_u :: source

record CommitRequest =
  user_id_r :: string
  commit_message_r :: string
  changes :: "FieldUpdate list"
  tags_r :: "string list option"
  author_r :: "string option"

record RollbackRequest =
  user_id_rb :: string
  version_id_rb :: string
  reason :: "string option"

record store =
  context_versions :: "ContextVersion list"
  business_state :: "BusinessStateField list"
  context_changes :: "ContextChange list"

definition empty_store :: store where
  "empty_store = \<lparr>context_versions = [], business_state = [], context_changes = []\<rparr>"

section \<open>The store interface\<close>

text \<open>
  Errors of the store as the client library reports them: \<^verbatim>\<open>PGRST116\<close> is what
  \<^verbatim>\<open>.single()\<close> answers when the result does not hold exactly one row (none, or more
  than one); two are the constraint violations of the schema; \<open>AmbiguousColumn\<close> is
  PostgreSQL's error 42702 for a name that may denote a variable or a column.
\<close>

datatype pg_error = PGRST116 | UniqueViolation | ForeignKeyViolation | AmbiguousColumn

datatype error =
    FailedToGetCurrentVersion pg_error
  | FailedToCreateVersion pg_error
  | FailedToInsertState pg_error
  | FailedToLogChanges pg_error
  | FailedToFindVersionAtTime pg_error
  | FailedToGetVersion pg_error
  | FailedToCalculateDiff pg_error
  | VersionNotFound string

text \<open>\<^verbatim>\<open>.single()\<close>: the pair \<^verbatim>\<open>{ data, error }\<close> of the client library.\<close>

fun single :: "'a list \<Rightarrow> 'a option \<times> pg_error option" where
  "single [r] = (Some r, None)"
| "single _ = (None, Some PGRST116)"

text \<open>
  The trigger \<^verbatim>\<open>enforce_single_current_version\<close> (before insert, when the new row is
  current): every other current row of the same user is set to not current.
\<close>

definition enforce_single_current_version ::
  "ContextVersion \<Rightarrow> ContextVersion list \<Rightarrow> ContextVersion list" where
  "enforce_single_current_version new rows =
     (if is_current new
      then map (\<lambda>v. if user_id v = user_id new \<and> id_v v \<noteq> id_v new \<and> is_current v
                      then v\<lparr>is_current := False\<rparr> else v) rows
      else rows)"

text \<open>
  Insert into \<^verbatim>\<open>context_versions\<close>: the primary key \<^verbatim>\<open>id\<close> and
  \<^verbatim>\<open>version_hash\<close> are unique, \<^verbatim>\<open>parent_version_id\<close> references a row of the
  table. The trigger's update and the insert are one statement: a violated constraint leaves
  the table as it was.
\<close>

definition insert_version :: "ContextVersion \<Rightarrow> store \<Rightarrow> pg_error + store" where
  "insert_version new st =
     (if id_v new \<in> set (map id_v (context_versions st))
         \<or> version_hash new \<in> set (map version_hash (context_versions st))
      then Inl UniqueViolation
      else if (case parent_version_id new of None \<Rightarrow> False
               | Some p \<Rightarrow> p \<notin> set (map id_v (context_versions st)))
      then Inl ForeignKeyViolation
      else Inr (st\<lparr>context_versions :=
                  enforce_single_current_version new (context_versions st) @ [new]\<rparr>))"

text \<open>
  Insert into \<^verbatim>\<open>business_state\<close>: \<^verbatim>\<open>version_id\<close> references a version, and
  \<^verbatim>\<open>unique_field_per_version\<close> allows one row for each (version, field name). The
  rows of one call are inserted together or not at all.
\<close>

definition state_key :: "BusinessStateField \<Rightarrow> string \<times> string" where
  "state_key r = (version_id r, field_name r)"

definition insert_state :: "BusinessStateField list \<Rightarrow> store \<Rightarrow> pg_error + store" where
  "insert_state rows st =
     (if \<exists>r \<in> set rows. version_id r \<notin> set (map id_v (context_versions st))
      then Inl ForeignKeyViolation
      else if \<not> distinct (map state_key rows)
              \<or> (\<exists>r \<in> set rows. state_key r \<in> set (map state_key (business_state st)))
      then Inl UniqueViolation
      else Inr (st\<lparr>business_state := business_state st @ rows\<rparr>))"

definition insert_changes :: "ContextChange list \<Rightarrow> store \<Rightarrow> pg_error + store" where
  "insert_changes rows st =
     (if \<exists>r \<in> set rows. version_id_ch r \<notin> set (map id_v (context_versions st))
      then Inl ForeignKeyViolation
      else Inr (st\<lparr>context_changes := context_changes st @ rows\<rparr>))"

section \<open>The engine\<close>

text \<open>
  What one call reads from outside the store: the clock of the engine (\<^verbatim>\<open>new Date()\<close>,
  whole milliseconds),
  the text of \<^verbatim>\<open>Math.random()\<close>, and the defaults the store fills in for the new
  version row (\<^verbatim>\<open>uuid_generate_v4()\<close> and \<^verbatim>\<open>NOW()\<close>).
\<close>

record env =
  now :: nat
  random :: string
  uuid :: string
  db_now :: nat

text \<open>
  The two library functions the hash is built from:
  \<^verbatim>\<open>crypto.createHash('sha1').update(s).digest('hex')\<close> and
  \<^verbatim>\<open>Date.prototype.toISOString\<close>.
\<close>

record platform =
  sha1_hex :: "string \<Rightarrow> string"
  toISOString :: "nat \<Rightarrow> string"

definition generateVersionHash ::
  "platform \<Rightarrow> string \<Rightarrow> string \<Rightarrow> nat \<Rightarrow> string \<Rightarrow> string" where
  "generateVersionHash P userId commitMessage timestamp rnd =
     sha1_hex P (userId @ commitMessage @ toISOString P timestamp @ rnd)"

definition getCurrentVersion :: "string \<Rightarrow> store \<Rightarrow> error + ContextVersion option" where
  "getCurrentVersion userId st =
     (case single (filter (\<lambda>v. user_id v = userId \<and> is_current v) (context_versions st)) of
        (data, err) \<Rightarrow>
          if err \<noteq> None \<and> err \<noteq> Some PGRST116
          then Inl (FailedToGetCurrentVersion (the err))
          else Inr data)"

definition getVersionById :: "string \<Rightarrow> store \<Rightarrow> error + ContextVersion option" where
  "getVersionById versionId st =
     (case single (filter (\<lambda>v. id_v v = versionId) (context_versions st)) of
        (data, err) \<Rightarrow>
          if err \<noteq> None \<and> err \<noteq> Some PGRST116
          then Inl (FailedToGetVersion (the err))
          else Inr data)"

text \<open>
  \<^verbatim>\<open>getVersionState\<close> builds an object keyed by field name: a later row of the same
  name replaces the earlier one and keeps its place. The object is a dictionary here, an
  association list in insertion order read with \<open>map_of\<close>; every field name is an ordinary
  key. The columns \<^verbatim>\<open>id\<close> and \<^verbatim>\<open>metadata\<close> of a row, which the engine never
  reads, are left out of the rows.
\<close>

definition getVersionState :: "string \<Rightarrow> store \<Rightarrow> (string \<times> BusinessStateField) list" where
  "getVersionState versionId st =
     foldl (\<lambda>state field. AList.update (field_name field) field state) []
       (filter (\<lambda>r. version_id r = versionId) (business_state st))"

text \<open>Truthiness of a JSON value in \<^verbatim>\<open>v || null\<close>.\<close>

fun truthy :: "json \<Rightarrow> bool" where
  "truthy JNull = False"
| "truthy (JBool b) = b"
| "truthy (JNum n) = (n \<noteq> 0)"
| "truthy (JStr s) = (s \<noteq> [])"
| "truthy (JArr _) = True"
| "truthy (JObj _) = True"

definition stateRecords_new :: "string \<Rightarrow> nat \<Rightarrow> FieldUpdate list \<Rightarrow> BusinessStateField list" where
  "stateRecords_new newId timestamp chs =
     map (\<lambda>change. \<lparr>version_id = newId, field_name = field_name_u change,
                     field_value = field_value_u change, field_type = field_type_u change,
                     source = source_u change, updated_at = timestamp\<rparr>) chs"

definition unchangedFields ::
  "string \<Rightarrow> FieldUpdate list \<Rightarrow> BusinessStateField list \<Rightarrow> BusinessStateField list" where
  "unchangedFields newId chs previousFields =
     map (\<lambda>field. \<lparr>version_id = newId, field_name = field_name field,
                    field_value = field_value field, field_type = field_type field,
                    source = source field, updated_at = updated_at field\<rparr>)
       (filter (\<lambda>field. field_name field \<notin> set (map field_name_u chs)) previousFields)"

definition changeRecords ::
  "string \<Rightarrow> nat \<Rightarrow> (string \<times> BusinessStateField) list \<Rightarrow> FieldUpdate list \<Rightarrow> ContextChange list" where
  "changeRecords newId timestamp previousState chs =
     map (\<lambda>change. \<lparr>version_id_ch = newId, field_name_ch = field_name_u change,
            old_value = (case map_of previousState (field_name_u change) of
                           None \<Rightarrow> JNull
                         | Some f \<Rightarrow> if truthy (field_value f) then field_value f else JNull),
            new_value = field_value_u change,
            change_type = (case map_of previousState (field_name_u change) of
                             None \<Rightarrow> Create | Some f \<Rightarrow> Update),
            source_ch = source_u change,
            created_at_ch = timestamp\<rparr>) chs"

text \<open>
  The locals \<^verbatim>\<open>previousState\<close> and \<^verbatim>\<open>stateRecords\<close> of \<^verbatim>\<open>commit\<close>: the state
  of the parent (empty without a parent), and the rows of the new version, the updates first
  and then the parent's rows whose name no update carries.
\<close>

definition previousState_of ::
  "ContextVersion option \<Rightarrow> store \<Rightarrow> (string \<times> BusinessStateField) list" where
  "previousState_of currentVersion st =
     (case currentVersion of None \<Rightarrow> [] | Some cv \<Rightarrow> getVersionState (id_v cv) st)"

definition stateRecords_of ::
  "string \<Rightarrow> nat \<Rightarrow> FieldUpdate list \<Rightarrow> ContextVersion option \<Rightarrow> store
     \<Rightarrow> BusinessStateField list" where
  "stateRecords_of newId timestamp chs currentVersion st =
     stateRecords_new newId timestamp chs
     @ (case currentVersion of
          None \<Rightarrow> []
        | Some cv \<Rightarrow>
            unchangedFields newId chs
              (filter (\<lambda>r. version_id r = id_v cv) (business_state st)))"

definition new_version_row ::
  "platform \<Rightarrow> env \<Rightarrow> CommitRequest \<Rightarrow> ContextVersion option \<Rightarrow> ContextVersion" where
  "new_version_row P e request currentVersion =
     \<lparr>id_v = uuid e,
      user_id = user_id_r request,
      version_hash = generateVersionHash P (user_id_r request) (commit_message_r request)
                       (now e) (random e),
      commit_message = commit_message_r request,
      created_at = db_now e,
      is_current = True,
      parent_version_id = map_option id_v currentVersion,
      author = (case author_r request of None \<Rightarrow> ''system''
                | Some a \<Rightarrow> if a = [] then ''system'' else a),
      tags = (case tags_r request of None \<Rightarrow> [] | Some t \<Rightarrow> t)\<rparr>"

text \<open>
  \<^verbatim>\<open>commit\<close>, for the engine constructed with \<open>userId\<close>. The result is the value
  returned or the error thrown, together with the store as the call leaves it: the three
  inserts are separate statements, and what was written before a failure stays.
\<close>

definition commit ::
  "platform \<Rightarrow> string \<Rightarrow> env \<Rightarrow> CommitRequest \<Rightarrow> store \<Rightarrow> (error + ContextVersion) \<times> store" where
  "commit P userId e request st =
     (case getCurrentVersion userId st of
        Inl err \<Rightarrow> (Inl err, st)
      | Inr currentVersion \<Rightarrow>
         (let timestamp = now e;
              newVersion = new_version_row P e request currentVersion
          in (case insert_version newVersion st of
                Inl pe \<Rightarrow> (Inl (FailedToCreateVersion pe), st)
              | Inr st1 \<Rightarrow>
                 (let previousState = previousState_of currentVersion st1;
                      stateRecords = stateRecords_of (id_v newVersion) timestamp
                                       (changes request) currentVersion st1
                  in (case insert_state stateRecords st1 of
                        Inl pe \<Rightarrow> (Inl (FailedToInsertState pe), st1)
                      | Inr st2 \<Rightarrow>
                         (let chRecords = changeRecords (id_v newVersion) timestamp
                                            previousState (changes request)
                          in if length chRecords > 0
                             then (case insert_changes chRecords st2 of
                                     Inl pe \<Rightarrow> (Inl (FailedToLogChanges pe), st2)
                                   | Inr st3 \<Rightarrow> (Inr newVersion, st3))
                             else (Inr newVersion, st2)))))))"

text \<open>
  \<^verbatim>\<open>rollback\<close>: every field of the target version becomes an update of source
  \<^verbatim>\<open>manual\<close>, committed with a message built from the first seven characters of the
  target's hash and the reason (or, when that is absent or empty, the target's message).
\<close>

definition rollback ::
  "platform \<Rightarrow> string \<Rightarrow> env \<Rightarrow> RollbackRequest \<Rightarrow> store \<Rightarrow> (error + ContextVersion) \<times> store" where
  "rollback P userId e request st =
     (case getVersionById (version_id_rb request) st of
        Inl err \<Rightarrow> (Inl err, st)
      | Inr None \<Rightarrow> (Inl (VersionNotFound (version_id_rb request)), st)
      | Inr (Some targetVersion) \<Rightarrow>
          let targetState = getVersionState (version_id_rb request) st;
              chs = map (\<lambda>field. \<lparr>field_name_u = field_name field,
                                    field_value_u = field_value field,
                                    field_type_u = field_type field,
                                    source_u = Manual\<rparr>) (map snd targetState);
              rollbackMessage = ''Rollback to '' @ take 7 (version_hash targetVersion) @ '': ''
                 @ (case reason request of
                      None \<Rightarrow> commit_message targetVersion
                    | Some r \<Rightarrow> if r = [] then commit_message targetVersion else r)
          in commit P userId e
               \<lparr>user_id_r = user_id_rb request, commit_message_r = rollbackMessage,
                changes = chs, tags_r = Some [''rollback''], author_r = Some ''system''\<rparr> st)"







text \<open>
  The query in the body of the SQL function \<^verbatim>\<open>calculate_version_diff\<close>: a full outer
  join of the two versions' (name, value) pairs on the name; a missing side is SQL NULL
  (\<open>None\<close>); the \<^verbatim>\<open>WHERE\<close> clause keeps the rows whose two values are distinct.
\<close>

datatype diff_type = Added | Removed | Modified | Unchanged

record DiffRow =
  field_name_d :: string
  old_value_d :: "json option"
  new_value_d :: "json option"
  change_type_d :: diff_type

definition full_outer_join ::
  "(string \<times> json) list \<Rightarrow> (string \<times> json) list
     \<Rightarrow> ((string \<times> json) option \<times> (string \<times> json) option) list" where
  "full_outer_join from_state to_state =
     concat (map (\<lambda>f. case filter (\<lambda>t. fst t = fst f) to_state of
                          [] \<Rightarrow> [(Some f, None)]
                        | ts \<Rightarrow> map (\<lambda>t. (Some f, Some t)) ts) from_state)
     @ map (\<lambda>t. (None, Some t))
           (filter (\<lambda>t. fst t \<notin> set (map fst from_state)) to_state)"

definition diff_row :: "(string \<times> json) option \<times> (string \<times> json) option \<Rightarrow> DiffRow" where
  "diff_row ft =
     (case ft of (f, t) \<Rightarrow>
        \<lparr>field_name_d = (case f of Some x \<Rightarrow> fst x
                          | None \<Rightarrow> (case t of Some y \<Rightarrow> fst y | None \<Rightarrow> [])),
         old_value_d = map_option snd f,
         new_value_d = map_option snd t,
         change_type_d = (if f = None then Added
                          else if t = None then Removed
                          else if map_option snd f \<noteq> map_option snd t then Modified
                          else Unchanged)\<rparr>)"

definition version_diff_query :: "string \<Rightarrow> string \<Rightarrow> store \<Rightarrow> DiffRow list" where
  "version_diff_query p_version_from p_version_to st =
     (let from_state = map (\<lambda>r. (field_name r, field_value r))
                         (filter (\<lambda>r. version_id r = p_version_from) (business_state st));
          to_state = map (\<lambda>r. (field_name r, field_value r))
                       (filter (\<lambda>r. version_id r = p_version_to) (business_state st))
      in filter (\<lambda>row. old_value_d row \<noteq> new_value_d row)
           (map diff_row (full_outer_join from_state to_state)))"

text \<open>
  The function itself is written in PL/pgSQL. The columns of its \<^verbatim>\<open>RETURNS TABLE\<close>
  clause and its two parameters are variables of the body. The two common table expressions
  read \<^verbatim>\<open>field_name\<close>, \<^verbatim>\<open>field_value\<close> and \<^verbatim>\<open>version_id\<close> of
  \<^verbatim>\<open>business_state\<close> without a qualifier. A name that is a variable and also a column
  of the table read is ambiguous, and the function then raises 42702 instead of running the
  query.
\<close>

definition returns_table :: "string list" where
  "returns_table = [''field_name'', ''old_value'', ''new_value'', ''change_type'']"

definition parameters :: "string list" where
  "parameters = [''p_version_from'', ''p_version_to'']"

definition business_state_columns :: "string list" where
  "business_state_columns =
     [''id'', ''version_id'', ''field_name'', ''field_value'', ''field_type'', ''source'',
      ''updated_at'', ''metadata'']"

definition unqualified_references :: "string list" where
  "unqualified_references = [''field_name'', ''field_value'', ''version_id'']"

definition ambiguous :: "string \<Rightarrow> bool" where
  "ambiguous name \<longleftrightarrow>
     name \<in> set (returns_table @ parameters) \<and> name \<in> set business_state_columns"

definition calculate_version_diff :: "string \<Rightarrow> string \<Rightarrow> store \<Rightarrow> pg_error + DiffRow list" where
  "calculate_version_diff p_version_from p_version_to st =
     (if \<exists>name \<in> set unqualified_references. ambiguous name
      then Inl AmbiguousColumn
      else Inr (version_diff_query p_version_from p_version_to st))"

text \<open>
  \<^verbatim>\<open>diff\<close> of the engine: an error of the SQL function is thrown; otherwise the result
  holds its rows, an SQL NULL arriving as \<^verbatim>\<open>null\<close>. The two lookups by id follow the
  call and their results are not used.
\<close>

record DiffEntry =
  field_name_e :: string
  old_value_e :: json
  new_value_e :: json
  change_type_e :: diff_type

record ContextDiff =
  version_from :: string
  version_to :: string
  changes_d :: "DiffEntry list"
  timestamp_d :: nat

definition null_of :: "json option \<Rightarrow> json" where
  "null_of v = (case v of None \<Rightarrow> JNull | Some j \<Rightarrow> j)"

definition diff_entry :: "DiffRow \<Rightarrow> DiffEntry" where
  "diff_entry row =
     \<lparr>field_name_e = field_name_d row,
      old_value_e = null_of (old_value_d row),
      new_value_e = null_of (new_value_d row),
      change_type_e = change_type_d row\<rparr>"

definition diff :: "nat \<Rightarrow> string \<Rightarrow> string \<Rightarrow> store \<Rightarrow> error + ContextDiff" where
  "diff today versionFromId versionToId st =
     (case calculate_version_diff versionFromId versionToId st of
        Inl pe \<Rightarrow> Inl (FailedToCalculateDiff pe)
      | Inr data \<Rightarrow>
         (case getVersionById versionFromId st of
            Inl err \<Rightarrow> Inl err
          | Inr vf \<Rightarrow>
             (case getVersionById versionToId st of
                Inl err \<Rightarrow> Inl err
              | Inr vt \<Rightarrow>
                  Inr \<lparr>version_from = versionFromId, version_to = versionToId,
                       changes_d = map diff_entry data,
                       timestamp_d = today\<rparr>)))"

text \<open>
  What a diff says about a field name: that some entry of the result carries the name with the
  given classification; the same for the rows of the query alone. And the (name, value) pairs
  of a version, as the query reads them.
\<close>

definition version_fields :: "string \<Rightarrow> store \<Rightarrow> (string \<times> json) list" where
  "version_fields versionId st =
     map (\<lambda>r. (field_name r, field_value r))
       (filter (\<lambda>r. version_id r = versionId) (business_state st))"

definition diff_marks :: "nat \<Rightarrow> string \<Rightarrow> string \<Rightarrow> store \<Rightarrow> string \<Rightarrow> diff_type \<Rightarrow> bool" where
  "diff_marks today versionFromId versionToId st name ty =
     (case diff today versionFromId versionToId st of
        Inl err \<Rightarrow> False
      | Inr d \<Rightarrow> \<exists>c \<in> set (changes_d d). field_name_e c = name \<and> change_type_e c = ty)"

definition query_marks :: "string \<Rightarrow> string \<Rightarrow> store \<Rightarrow> string \<Rightarrow> diff_type \<Rightarrow> bool" where
  "query_marks p_version_from p_version_to st name ty =
     (\<exists>row \<in> set (version_diff_query p_version_from p_version_to st).
        field_name_d row = name \<and> change_type_d row = ty)"

section \<open>The commit route\<close>

text \<open>
  \<^verbatim>\<open>POST /api/context/commit\<close> of \<^verbatim>\<open>api/routes\<close>: the body as parsed, in which each
  of the three required members may be missing; a missing or empty string and a missing list
  are what \<^verbatim>\<open>!x\<close> rejects, an empty list is not. The engine is constructed with the
  request's user.
\<close>

record RawCommitRequest =
  raw_user_id :: "string option"
  raw_commit_message :: "string option"
  raw_changes :: "FieldUpdate list option"
  raw_tags :: "string list option"
  raw_author :: "string option"

datatype response = Status400 | Status201 ContextVersion | Status500 error

definition falsy_string :: "string option \<Rightarrow> bool" where
  "falsy_string x = (case x of None \<Rightarrow> True | Some s \<Rightarrow> s = [])"

definition post_commit ::
  "platform \<Rightarrow> env \<Rightarrow> RawCommitRequest \<Rightarrow> store \<Rightarrow> response \<times> store" where
  "post_commit P e raw st =
     (if falsy_string (raw_user_id raw) \<or> falsy_string (raw_commit_message raw)
         \<or> raw_changes raw = None
      then (Status400, st)
      else (case commit P (the (raw_user_id raw)) e
                   \<lparr>user_id_r = the (raw_user_id raw),
                    commit_message_r = the (raw_commit_message raw),
                    changes = the (raw_changes raw),
                    tags_r = raw_tags raw, author_r = raw_author raw\<rparr> st of
              (Inl err, st') \<Rightarrow> (Status500 err, st')
            | (Inr version, st') \<Rightarrow> (Status201 version, st')))"

section \<open>Histories of calls\<close>

text \<open>
  The versions of an owner that are flagged current, and the store after a sequence of
  \<^verbatim>\<open>commit\<close> and \<^verbatim>\<open>rollback\<close> calls, each by an engine of its own user, whatever
  each call returns.
\<close>

definition current_versions :: "string \<Rightarrow> store \<Rightarrow> ContextVersion list" where
  "current_versions owner st =
     filter (\<lambda>v. user_id v = owner \<and> is_current v) (context_versions st)"

datatype operation =
    Commit string env CommitRequest
  | Rollback string env RollbackRequest

fun apply_operation :: "platform \<Rightarrow> operation \<Rightarrow> store \<Rightarrow> store" where
  "apply_operation P (Commit userId e request) st = snd (commit P userId e request st)"
| "apply_operation P (Rollback userId e request) st = snd (rollback P userId e request st)"

definition run :: "platform \<Rightarrow> operation list \<Rightarrow> store \<Rightarrow> store" where
  "run P ops st = foldl (\<lambda>s op. apply_operation P op s) st ops"

definition single_current :: "store \<Rightarrow> bool" where
  "single_current st \<longleftrightarrow>
     (\<forall>owner. length (current_versions owner st) =
        (if owner \<in> user_id ` set (context_versions st) then 1 else 0))"

text \<open>
  The constraints of the schema that every store built through its interface satisfies:
  the foreign keys of \<^verbatim>\<open>business_state\<close> and \<^verbatim>\<open>context_changes\<close>, and
  \<^verbatim>\<open>unique_field_per_version\<close>.
\<close>

definition wf_store :: "store \<Rightarrow> bool" where
  "wf_store st \<longleftrightarrow>
     (\<forall>r \<in> set (business_state st). version_id r \<in> set (map id_v (context_versions st)))
     \<and> (\<forall>c \<in> set (context_changes st). version_id_ch c \<in> set (map id_v (context_versions st)))
     \<and> distinct (map state_key (business_state st))"

text \<open>The store after a \<^verbatim>\<open>commit\<close> whose three inserts all succeed.\<close>

definition committed :: "platform \<Rightarrow> env \<Rightarrow> CommitRequest \<Rightarrow> ContextVersion option \<Rightarrow> store \<Rightarrow> store" where
  "committed P e request cur st =
     \<lparr>context_versions =
        enforce_single_current_version (new_version_row P e request cur) (context_versions st)
        @ [new_version_row P e request cur],
      business_state = business_state st
        @ stateRecords_of (uuid e) (now e) (changes request) cur st,
      context_changes = context_changes st
        @ changeRecords (uuid e) (now e) (previousState_of cur st) (changes request)\<rparr>"

section \<open>A worked example\<close>

text \<open>
  Two commits of user \<open>u1\<close>: the first creates the fields \<open>a = 1\<close> and \<open>b = "x"\<close>, the
  second updates \<open>a\<close> to \<open>2\<close>. The two library functions are replaced by stand-ins
  (the digest is the identity), which is enough to run the engine on concrete requests.
\<close>

definition ex_platform :: platform where
  "ex_platform = \<lparr>sha1_hex = (\<lambda>s. s), toISOString = (\<lambda>t. ''T'')\<rparr>"

definition ex_env1 :: env where
  "ex_env1 = \<lparr>now = 1000, random = ''0.1'', uuid = ''v1'', db_now = 1001\<rparr>"

definition ex_env2 :: env where
  "ex_env2 = \<lparr>now = 2000, random = ''0.2'', uuid = ''v2'', db_now = 2001\<rparr>"

definition ex_req1 :: CommitRequest where
  "ex_req1 = \<lparr>user_id_r = ''u1'', commit_message_r = ''init'',
     changes = [\<lparr>field_name_u = ''a'', field_value_u = JNum 1, field_type_u = FNumber, source_u = Manual\<rparr>,
                \<lparr>field_name_u = ''b'', field_value_u = JStr ''x'', field_type_u = FText, source_u = ApiCrm\<rparr>],
     tags_r = None, author_r = None\<rparr>"

definition ex_u2 :: FieldUpdate where
  "ex_u2 = \<lparr>field_name_u = ''a'', field_value_u = JNum 2, field_type_u = FNumber,
     source_u = Manual\<rparr>"

definition ex_req2 :: CommitRequest where
  "ex_req2 = \<lparr>user_id_r = ''u1'', commit_message_r = ''bump'', changes = [ex_u2],
     tags_r = None, author_r = None\<rparr>"

definition ex_v1 :: ContextVersion where
  "ex_v1 = \<lparr>id_v = ''v1'', user_id = ''u1'', version_hash = ''u1initT0.1'',
     commit_message = ''init'', created_at = 1001, is_current = True,
     parent_version_id = None, author = ''system'', tags = []\<rparr>"

definition ex_v2 :: ContextVersion where
  "ex_v2 = \<lparr>id_v = ''v2'', user_id = ''u1'', version_hash = ''u1bumpT0.2'',
     commit_message = ''bump'', created_at = 2001, is_current = True,
     parent_version_id = Some ''v1'', author = ''system'', tags = []\<rparr>"

definition ex_fa :: BusinessStateField where
  "ex_fa = \<lparr>version_id = ''v1'', field_name = ''a'', field_value = JNum 1,
     field_type = FNumber, source = Manual, updated_at = 1000\<rparr>"

definition ex_fb :: BusinessStateField where
  "ex_fb = \<lparr>version_id = ''v1'', field_name = ''b'', field_value = JStr ''x'',
     field_type = FText, source = ApiCrm, updated_at = 1000\<rparr>"

definition ex_fields1 :: "BusinessStateField list" where
  "ex_fields1 = [ex_fa, ex_fb]"

definition ex_changes1 :: "ContextChange list" where
  "ex_changes1 =
     [\<lparr>version_id_ch = ''v1'', field_name_ch = ''a'', old_value = JNull,
        new_value = JNum 1, change_type = Create, source_ch = Manual, created_at_ch = 1000\<rparr>,
      \<lparr>version_id_ch = ''v1'', field_name_ch = ''b'', old_value = JNull,
        new_value = JStr ''x'', change_type = Create, source_ch = ApiCrm, created_at_ch = 1000\<rparr>]"

definition ex_store1 :: store where
  "ex_store1 = \<lparr>context_versions = [ex_v1], business_state = ex_fields1,
                 context_changes = ex_changes1\<rparr>"

definition ex_store2 :: store where
  "ex_store2 =
     \<lparr>context_versions = [ex_v1\<lparr>is_current := False\<rparr>, ex_v2],
      business_state = ex_fields1 @
        [\<lparr>version_id = ''v2'', field_name = ''a'', field_value = JNum 2,
           field_type = FNumber, source = Manual, updated_at = 2000\<rparr>,
         \<lparr>version_id = ''v2'', field_name = ''b'', field_value = JStr ''x'',
           field_type = FText, source = ApiCrm, updated_at = 1000\<rparr>],
      context_changes = ex_changes1 @
        [\<lparr>version_id_ch = ''v2'', field_name_ch = ''a'', old_value = JNum 1,
           new_value = JNum 2, change_type = Update, source_ch = Manual,
           created_at_ch = 2000\<rparr>]\<rparr>"

text \<open>
  A third commit adds the field \<open>c\<close>; a rollback to the first version follows.
\<close>

definition ex_env3 :: env where
  "ex_env3 = \<lparr>now = 3000, random = ''0.3'', uuid = ''v3'', db_now = 3001\<rparr>"

definition ex_req3 :: CommitRequest where
  "ex_req3 = \<lparr>user_id_r = ''u1'', commit_message_r = ''add c'',
     changes = [\<lparr>field_name_u = ''c'', field_value_u = JBool True, field_type_u = FBoolean,
                 source_u = Manual\<rparr>],
     tags_r = None, author_r = None\<rparr>"

definition ex_env4 :: env where
  "ex_env4 = \<lparr>now = 4000, random = ''0.4'', uuid = ''v4'', db_now = 4001\<rparr>"

definition ex_rollback :: RollbackRequest where
  "ex_rollback = \<lparr>user_id_rb = ''u1'', version_id_rb = ''v1'', reason = None\<rparr>"

definition ex_store3 :: store where
  "ex_store3 = snd (commit ex_platform ''u1'' ex_env3 ex_req3 ex_store2)"

text \<open>A request with no updates, and one that names the field \<open>a\<close> twice.\<close>

definition ex_req_empty :: CommitRequest where
  "ex_req_empty = \<lparr>user_id_r = ''u1'', commit_message_r = ''nothing'', changes = [],
     tags_r = None, author_r = None\<rparr>"

definition ex_req_dup :: CommitRequest where
  "ex_req_dup = \<lparr>user_id_r = ''u1'', commit_message_r = ''twice'', changes = [ex_u2, ex_u2],
     tags_r = None, author_r = None\<rparr>"

text \<open>A store in which two versions of \<open>u1\<close> are flagged current.\<close>

definition ex_store_two_current :: store where
  "ex_store_two_current =
     \<lparr>context_versions = [ex_v1, ex_v2], business_state = [], context_changes = []\<rparr>"

text \<open>A version of user \<open>u2\<close> whose field \<open>n\<close> holds the number \<open>0\<close>, and an update of it.\<close>

definition ex_vz :: ContextVersion where
  "ex_vz = \<lparr>id_v = ''z1'', user_id = ''u2'', version_hash = ''hz'',
     commit_message = ''zero'', created_at = 500, is_current = True,
     parent_version_id = None, author = ''system'', tags = []\<rparr>"

definition ex_fz :: BusinessStateField where
  "ex_fz = \<lparr>version_id = ''z1'', field_name = ''n'', field_value = JNum 0,
     field_type = FNumber, source = Manual, updated_at = 500\<rparr>"

definition ex_store_z :: store where
  "ex_store_z = \<lparr>context_versions = [ex_vz], business_state = [ex_fz], context_changes = []\<rparr>"

definition ex_uz :: FieldUpdate where
  "ex_uz = \<lparr>field_name_u = ''n'', field_value_u = JNum 7, field_type_u = FNumber,
     source_u = ApiTwitter\<rparr>"

definition ex_req_z :: CommitRequest where
  "ex_req_z = \<lparr>user_id_r = ''u2'', commit_message_r = ''seven'', changes = [ex_uz],
     tags_r = None, author_r = None\<rparr>"

definition ex_env_z :: env where
  "ex_env_z = \<lparr>now = 600, random = ''0.6'', uuid = ''z2'', db_now = 601\<rparr>"

definition ex_vz2 :: ContextVersion where
  "ex_vz2 = \<lparr>id_v = ''z2'', user_id = ''u2'', version_hash = ''u2sevenT0.6'',
     commit_message = ''seven'', created_at = 601, is_current = True,
     parent_version_id = Some ''z1'', author = ''system'', tags = []\<rparr>"

definition ex_store_z2 :: store where
  "ex_store_z2 =
     \<lparr>context_versions = [ex_vz\<lparr>is_current := False\<rparr>, ex_vz2],
      business_state = [ex_fz,
        \<lparr>version_id = ''z2'', field_name = ''n'', field_value = JNum 7,
          field_type = FNumber, source = ApiTwitter, updated_at = 600\<rparr>],
      context_changes =
        [\<lparr>version_id_ch = ''z2'', field_name_ch = ''n'', old_value = JNull,
           new_value = JNum 7, change_type = Update, source_ch = ApiTwitter,
           created_at_ch = 600\<rparr>]\<rparr>"

definition ex_v_empty :: ContextVersion where
  "ex_v_empty = \<lparr>id_v = ''v1'', user_id = ''u1'', version_hash = ''u1nothingT0.1'',
     commit_message = ''nothing'', created_at = 1001, is_current = True,
     parent_version_id = None, author = ''system'', tags = []\<rparr>"

definition ex_raw_missing :: RawCommitRequest where
  "ex_raw_missing = \<lparr>raw_user_id = Some ''u1'', raw_commit_message = Some ''nothing'',
     raw_changes = None, raw_tags = None, raw_author = None\<rparr>"

definition ex_raw_empty :: RawCommitRequest where
  "ex_raw_empty = \<lparr>raw_user_id = Some ''u1'', raw_commit_message = Some ''nothing'',
     raw_changes = Some [], raw_tags = None, raw_author = None\<rparr>"

section \<open>Properties of the store interface and of commit\<close>

lemma insert_version_current:
  assumes "insert_version new st = Inr st'" "is_current new"
  shows "current_versions owner st' =
           (if owner = user_id new then [new] else current_versions owner st)"
proof -
  from assms(1) have fresh: "id_v new \<notin> id_v ` set (context_versions st)"
    and st': "context_versions st' = enforce_single_current_version new (context_versions st) @ [new]"
    by (auto simp: insert_version_def split: if_splits)
  have "filter (\<lambda>v. user_id v = owner \<and> is_current v)
          (enforce_single_current_version new rows) =
        (if owner = user_id new then [] else filter (\<lambda>v. user_id v = owner \<and> is_current v) rows)"
    if "id_v new \<notin> id_v ` set rows" for rows
    using that assms(2)
    by (induction rows) (auto simp: enforce_single_current_version_def)
  with fresh st' assms(2) show ?thesis
    by (simp add: current_versions_def)
qed

lemma insert_version_users:
  assumes "insert_version new st = Inr st'"
  shows "user_id ` set (context_versions st') = insert (user_id new) (user_id ` set (context_versions st))"
  using assms
  by (auto simp: insert_version_def enforce_single_current_version_def image_iff split: if_splits)

lemma insert_version_single_current:
  assumes "insert_version new st = Inr st'" "is_current new" "single_current st"
  shows "single_current st'"
  using assms(3)
  by (simp add: single_current_def insert_version_current[OF assms(1,2)]
        insert_version_users[OF assms(1)])

lemma insert_state_versions:
  "insert_state rows st = Inr st' \<Longrightarrow> context_versions st' = context_versions st"
  unfolding insert_state_def by (simp split: if_splits) fastforce+

lemma insert_changes_versions:
  "insert_changes rows st = Inr st' \<Longrightarrow> context_versions st' = context_versions st"
  unfolding insert_changes_def by (simp split: if_splits) fastforce+

lemma single_current_cong:
  "context_versions st' = context_versions st \<Longrightarrow> single_current st' = single_current st"
  by (simp add: single_current_def current_versions_def)

lemma getCurrentVersion_Inr:
  "getCurrentVersion userId st =
     Inr (fst (single (filter (\<lambda>v. user_id v = userId \<and> is_current v) (context_versions st))))"
  unfolding getCurrentVersion_def
  by (cases "filter (\<lambda>v. user_id v = userId \<and> is_current v) (context_versions st)"
        rule: single.cases) simp_all

lemma commit_version_err:
  assumes "getCurrentVersion userId st = Inr cur"
    and "insert_version (new_version_row P e request cur) st = Inl pe"
  shows "commit P userId e request st = (Inl (FailedToCreateVersion pe), st)"
  using assms by (simp add: commit_def Let_def)

lemma commit_state_err:
  assumes "getCurrentVersion userId st = Inr cur"
    and "insert_version (new_version_row P e request cur) st = Inr st1"
    and "insert_state (stateRecords_of (uuid e) (now e) (changes request) cur st1) st1 = Inl pe"
  shows "commit P userId e request st = (Inl (FailedToInsertState pe), st1)"
  using assms by (simp add: commit_def Let_def new_version_row_def)

lemma commit_changes_err:
  assumes "getCurrentVersion userId st = Inr cur"
    and "insert_version (new_version_row P e request cur) st = Inr st1"
    and "insert_state (stateRecords_of (uuid e) (now e) (changes request) cur st1) st1 = Inr st2"
    and "changes request \<noteq> []"
    and "insert_changes (changeRecords (uuid e) (now e) (previousState_of cur st1) (changes request)) st2 = Inl pe"
  shows "commit P userId e request st = (Inl (FailedToLogChanges pe), st2)"
  using assms by (simp add: commit_def Let_def new_version_row_def changeRecords_def)

lemma commit_ok:
  assumes "getCurrentVersion userId st = Inr cur"
    and "insert_version (new_version_row P e request cur) st = Inr st1"
    and "insert_state (stateRecords_of (uuid e) (now e) (changes request) cur st1) st1 = Inr st2"
    and "changes request \<noteq> []"
    and "insert_changes (changeRecords (uuid e) (now e) (previousState_of cur st1) (changes request)) st2 = Inr st3"
  shows "commit P userId e request st = (Inr (new_version_row P e request cur), st3)"
  using assms by (simp add: commit_def Let_def new_version_row_def changeRecords_def)

lemma commit_ok_empty:
  assumes "getCurrentVersion userId st = Inr cur"
    and "insert_version (new_version_row P e request cur) st = Inr st1"
    and "insert_state (stateRecords_of (uuid e) (now e) (changes request) cur st1) st1 = Inr st2"
    and "changes request = []"
  shows "commit P userId e request st = (Inr (new_version_row P e request cur), st2)"
  using assms by (simp add: commit_def Let_def new_version_row_def changeRecords_def)

lemma commit_cases:
  obtains (unchanged) "context_versions (snd (commit P userId e request st)) = context_versions st"
  | (inserted) cur st1 where "getCurrentVersion userId st = Inr cur"
      "insert_version (new_version_row P e request cur) st = Inr st1"
      "context_versions (snd (commit P userId e request st)) = context_versions st1"
proof -
  obtain cur where cur: "getCurrentVersion userId st = Inr cur"
    by (simp add: getCurrentVersion_Inr)
  show thesis
  proof (cases "insert_version (new_version_row P e request cur) st")
    case (Inl pe)
    show ?thesis by (rule unchanged) (simp add: commit_version_err[OF cur Inl])
  next
    case st1: (Inr st1)
    show ?thesis
    proof (cases "insert_state (stateRecords_of (uuid e) (now e) (changes request) cur st1) st1")
      case (Inl pe)
      show ?thesis by (rule inserted[OF cur st1]) (simp add: commit_state_err[OF cur st1 Inl])
    next
      case st2: (Inr st2)
      have v2: "context_versions st2 = context_versions st1"
        by (rule insert_state_versions[OF st2])
      show ?thesis
      proof (cases "changes request = []")
        case True
        show ?thesis
          by (rule inserted[OF cur st1]) (simp add: commit_ok_empty[OF cur st1 st2 True] v2)
      next
        case False
        show ?thesis
        proof (cases "insert_changes (changeRecords (uuid e) (now e) (previousState_of cur st1) (changes request)) st2")
          case (Inl pe)
          show ?thesis
            by (rule inserted[OF cur st1]) (simp add: commit_changes_err[OF cur st1 st2 False Inl] v2)
        next
          case (Inr st3)
          show ?thesis
            by (rule inserted[OF cur st1])
               (simp add: commit_ok[OF cur st1 st2 False Inr] v2 insert_changes_versions[OF Inr])
        qed
      qed
    qed
  qed
qed

lemma commit_single_current:
  assumes "single_current st"
  shows "single_current (snd (commit P userId e request st))"
proof (cases P userId e request st rule: commit_cases)
  case unchanged
  then show ?thesis using assms single_current_cong by blast
next
  case (inserted cur st1)
  have "single_current st1"
    using insert_version_single_current[OF inserted(2) _ assms]
    by (simp add: new_version_row_def)
  with inserted(3) show ?thesis using single_current_cong by blast
qed


lemma rollback_single_current:
  assumes "single_current st"
  shows "single_current (snd (rollback P userId e request st))"
proof (cases "getVersionById (version_id_rb request) st")
  case (Inl err)
  then show ?thesis using assms by (simp add: rollback_def)
next
  case (Inr target)
  then show ?thesis
    using assms commit_single_current
    by (cases target) (simp_all add: rollback_def Let_def)
qed

lemma apply_operation_single_current:
  "single_current st \<Longrightarrow> single_current (apply_operation P op st)"
  by (cases op)
     (simp_all add: commit_single_current rollback_single_current)

lemma run_single_current:
  "single_current st \<Longrightarrow> single_current (run P ops st)"
  unfolding run_def
  by (induction ops arbitrary: st) (simp_all add: apply_operation_single_current)

lemma empty_single_current: "single_current empty_store"
  by (simp add: single_current_def current_versions_def empty_store_def)


lemma commit_InrE:
  assumes "commit P userId e request st = (Inr v, st')"
  obtains cur st1 st2 where
    "getCurrentVersion userId st = Inr cur"
    "v = new_version_row P e request cur"
    "insert_version v st = Inr st1"
    "insert_state (stateRecords_of (uuid e) (now e) (changes request) cur st1) st1 = Inr st2"
    "if changes request = [] then st' = st2
     else insert_changes (changeRecords (uuid e) (now e) (previousState_of cur st1)
            (changes request)) st2 = Inr st'"
proof -
  obtain cur where cur: "getCurrentVersion userId st = Inr cur"
    by (simp add: getCurrentVersion_Inr)
  show thesis
  proof (cases "insert_version (new_version_row P e request cur) st")
    case (Inl pe)
    with assms show ?thesis by (simp add: commit_version_err[OF cur Inl])
  next
    case st1: (Inr st1)
    show ?thesis
    proof (cases "insert_state (stateRecords_of (uuid e) (now e) (changes request) cur st1) st1")
      case (Inl pe)
      with assms show ?thesis by (simp add: commit_state_err[OF cur st1 Inl])
    next
      case st2: (Inr st2)
      show ?thesis
      proof (cases "changes request = []")
        case True
        from assms have "v = new_version_row P e request cur" "st' = st2"
          by (simp_all add: commit_ok_empty[OF cur st1 st2 True])
        with cur st1 st2 True show ?thesis by (intro that[of cur st1 st2]) simp_all
      next
        case False
        show ?thesis
        proof (cases "insert_changes (changeRecords (uuid e) (now e) (previousState_of cur st1) (changes request)) st2")
          case (Inl pe)
          with assms show ?thesis by (simp add: commit_changes_err[OF cur st1 st2 False Inl])
        next
          case (Inr st3)
          from assms have "v = new_version_row P e request cur" "st' = st3"
            by (simp_all add: commit_ok[OF cur st1 st2 False Inr])
          with cur st1 st2 False Inr show ?thesis by (intro that[of cur st1 st2]) simp_all
        qed
      qed
    qed
  qed
qed

lemma insert_version_superseded:
  assumes "insert_version new st = Inr st'" "is_current new"
    and "w \<in> set (context_versions st)" "user_id w = user_id new"
  shows "w\<lparr>is_current := False\<rparr> \<in> set (context_versions st')"
proof -
  let ?f = "\<lambda>v. if user_id v = user_id new \<and> id_v v \<noteq> id_v new \<and> is_current v
                 then v\<lparr>is_current := False\<rparr> else v"
  from assms(1) have fresh: "id_v new \<notin> id_v ` set (context_versions st)"
    and st': "context_versions st' = enforce_single_current_version new (context_versions st) @ [new]"
    by (auto simp: insert_version_def split: if_splits)
  from fresh assms(3) have "id_v w \<noteq> id_v new" by (metis imageI)
  with assms(2,4) have fw: "?f w = w\<lparr>is_current := False\<rparr>"
    by simp
  have "?f w \<in> set (map ?f (context_versions st))"
    unfolding set_map by (rule imageI) (rule assms(3))
  then have "w\<lparr>is_current := False\<rparr> \<in> set (map ?f (context_versions st))"
    by (simp only: fw)
  then have "w\<lparr>is_current := False\<rparr>
      \<in> set (enforce_single_current_version new (context_versions st))"
    by (simp only: enforce_single_current_version_def assms(2) if_True)
  then show ?thesis
    by (simp only: st' set_append UnI1)
qed

lemma commit_Inr_current:
  assumes "commit P userId e request st = (Inr v, st')"
  shows "current_versions (user_id_r request) st' = [v]"
    and "w \<in> set (context_versions st) \<Longrightarrow> user_id w = user_id_r request \<Longrightarrow>
           w\<lparr>is_current := False\<rparr> \<in> set (context_versions st')"
proof -
  from assms obtain cur st1 st2 where
    v: "v = new_version_row P e request cur" and st1: "insert_version v st = Inr st1"
    and st2: "insert_state (stateRecords_of (uuid e) (now e) (changes request) cur st1) st1 = Inr st2"
    and st3: "if changes request = [] then st' = st2
     else insert_changes (changeRecords (uuid e) (now e) (previousState_of cur st1)
            (changes request)) st2 = Inr st'"
    by (rule commit_InrE)
  have vs: "context_versions st' = context_versions st1"
    using st3 insert_state_versions[OF st2]
    by (cases "changes request = []") (simp_all add: insert_changes_versions)
  have cur: "is_current v" and u: "user_id v = user_id_r request"
    by (simp_all add: v new_version_row_def)
  show "current_versions (user_id_r request) st' = [v]"
    using insert_version_current[OF st1 cur, of "user_id_r request"] vs u
    by (simp add: current_versions_def)
  show "w\<lparr>is_current := False\<rparr> \<in> set (context_versions st')"
    if "w \<in> set (context_versions st)" "user_id w = user_id_r request"
    using insert_version_superseded[OF st1 cur that(1)] that(2) u vs by simp
qed

lemma single_Some:
  "fst (single xs) = Some x \<Longrightarrow> xs = [x]"
  by (cases xs rule: single.cases) simp_all

lemma getCurrentVersion_Some:
  assumes "getCurrentVersion userId st = Inr (Some cv)"
  shows "filter (\<lambda>v. user_id v = userId \<and> is_current v) (context_versions st) = [cv]"
  using assms by (simp add: getCurrentVersion_Inr single_Some)

lemma getCurrentVersion_Some_mem:
  assumes "getCurrentVersion userId st = Inr (Some cv)"
  shows "cv \<in> set (context_versions st)" "user_id cv = userId" "is_current cv"
proof -
  have "cv \<in> set (filter (\<lambda>v. user_id v = userId \<and> is_current v) (context_versions st))"
    by (simp only: getCurrentVersion_Some[OF assms] list.set_intros)
  then show "cv \<in> set (context_versions st)" "user_id cv = userId" "is_current cv"
    by simp_all
qed

lemma insert_version_ok:
  assumes "id_v new \<notin> set (map id_v (context_versions st))"
    and "version_hash new \<notin> set (map version_hash (context_versions st))"
    and "\<And>p. parent_version_id new = Some p \<Longrightarrow> p \<in> set (map id_v (context_versions st))"
  shows "insert_version new st =
           Inr (st\<lparr>context_versions :=
                  enforce_single_current_version new (context_versions st) @ [new]\<rparr>)"
  using assms by (simp add: insert_version_def split: option.split)

lemma enforce_ids:
  "map id_v (enforce_single_current_version new rows) = map id_v rows"
  by (induction rows) (simp_all add: enforce_single_current_version_def)

lemma stateRecords_of_version:
  "r \<in> set (stateRecords_of newId ts chs cur st) \<Longrightarrow> version_id r = newId"
  by (auto simp: stateRecords_of_def stateRecords_new_def unchangedFields_def split: option.splits)

lemma changeRecords_version:
  "c \<in> set (changeRecords newId ts prev chs) \<Longrightarrow> version_id_ch c = newId"
  by (auto simp: changeRecords_def)

lemma stateRecords_of_names:
  "map field_name (stateRecords_of newId ts chs cur st) =
     map field_name_u chs @
     (case cur of None \<Rightarrow> []
      | Some cv \<Rightarrow> filter (\<lambda>n. n \<notin> set (map field_name_u chs))
          (map field_name (filter (\<lambda>r. version_id r = id_v cv) (business_state st))))"
  by (simp add: stateRecords_of_def stateRecords_new_def unchangedFields_def comp_def filter_map
        split: option.split)


lemma insert_state_ok:
  assumes "\<forall>r \<in> set rows. version_id r \<in> set (map id_v (context_versions st))"
    and "distinct (map state_key rows)"
    and "\<forall>r \<in> set rows. state_key r \<notin> set (map state_key (business_state st))"
  shows "insert_state rows st = Inr (st\<lparr>business_state := business_state st @ rows\<rparr>)"
  using assms unfolding insert_state_def by (simp only: bex_simps) (simp add: Ball_def Bex_def)

lemma insert_changes_ok:
  assumes "\<forall>r \<in> set rows. version_id_ch r \<in> set (map id_v (context_versions st))"
  shows "insert_changes rows st = Inr (st\<lparr>context_changes := context_changes st @ rows\<rparr>)"
  using assms unfolding insert_changes_def by (simp add: Ball_def Bex_def)

lemma distinct_names_of_version:
  "distinct (map state_key rows) \<Longrightarrow>
     distinct (map field_name (filter (\<lambda>r. version_id r = i) rows))"
proof (induction rows)
  case Nil
  then show ?case by simp
next
  case (Cons r rows)
  then show ?case
    by (auto simp: state_key_def image_iff)
qed

lemma stateRecords_of_distinct:
  assumes "distinct (map field_name_u chs)" "distinct (map state_key (business_state st))"
  shows "distinct (map state_key (stateRecords_of newId ts chs cur st))"
proof -
  have names: "distinct (map field_name (stateRecords_of newId ts chs cur st))"
    using assms distinct_names_of_version[OF assms(2)]
    by (auto simp: stateRecords_of_names distinct_map_filter split: option.split)
  have "map state_key (stateRecords_of newId ts chs cur st) =
        map (Pair newId) (map field_name (stateRecords_of newId ts chs cur st))"
    by (simp add: state_key_def stateRecords_of_version cong: map_cong)
  with names show ?thesis
    by (simp only: distinct_map) (auto simp: inj_on_def distinct_map)
qed


lemma previousState_of_versions:
  "business_state st1 = business_state st \<Longrightarrow> previousState_of cur st1 = previousState_of cur st"
  by (simp add: previousState_of_def getVersionState_def split: option.split)

lemma stateRecords_of_versions:
  "business_state st1 = business_state st \<Longrightarrow>
     stateRecords_of newId ts chs cur st1 = stateRecords_of newId ts chs cur st"
  by (simp add: stateRecords_of_def split: option.split)

lemma commit_success:
  assumes cur: "getCurrentVersion userId st = Inr cur"
    and fresh_id: "uuid e \<notin> set (map id_v (context_versions st))"
    and fresh_hash: "generateVersionHash P (user_id_r request) (commit_message_r request)
                       (now e) (random e) \<notin> set (map version_hash (context_versions st))"
    and wf: "wf_store st"
    and dist: "distinct (map field_name_u (changes request))"
  shows "commit P userId e request st =
           (Inr (new_version_row P e request cur), committed P e request cur st)"
proof -
  let ?v = "new_version_row P e request cur"
  let ?st1 = "st\<lparr>context_versions :=
                  enforce_single_current_version ?v (context_versions st) @ [?v]\<rparr>"
  let ?recs = "stateRecords_of (uuid e) (now e) (changes request) cur st"
  let ?st2 = "?st1\<lparr>business_state := business_state st @ ?recs\<rparr>"
  let ?chs = "changeRecords (uuid e) (now e) (previousState_of cur st) (changes request)"
  have idv: "id_v ?v = uuid e" by (simp add: new_version_row_def)
  have parent: "p \<in> set (map id_v (context_versions st))" if "parent_version_id ?v = Some p" for p
  proof -
    from that obtain cv where cv: "cur = Some cv" "p = id_v cv"
      by (auto simp: new_version_row_def)
    with cur have "cv \<in> set (context_versions st)"
      by (simp add: getCurrentVersion_Some_mem(1))
    with cv show ?thesis by simp
  qed
  have st1: "insert_version ?v st = Inr ?st1"
    using fresh_id fresh_hash parent
    by (intro insert_version_ok) (simp_all add: new_version_row_def)
  have ids1: "set (map id_v (context_versions ?st1)) = insert (uuid e) (set (map id_v (context_versions st)))"
    using enforce_ids[of ?v "context_versions st"] idv
    by (simp del: set_map add: set_map[symmetric])
  have recs1: "stateRecords_of (uuid e) (now e) (changes request) cur ?st1 = ?recs"
    by (rule stateRecords_of_versions) simp
  have prev1: "previousState_of cur ?st1 = previousState_of cur st"
    by (rule previousState_of_versions) simp
  from wf have wf_fk: "\<forall>r \<in> set (business_state st). version_id r \<in> set (map id_v (context_versions st))"
    and wf_d: "distinct (map state_key (business_state st))"
    by (simp_all add: wf_store_def)
  have fk: "\<forall>r \<in> set ?recs. version_id r \<in> set (map id_v (context_versions ?st1))"
    unfolding ids1 by (simp add: stateRecords_of_version)
  have d: "distinct (map state_key ?recs)"
    by (rule stateRecords_of_distinct[OF dist wf_d])
  have no_old: "version_id x \<noteq> uuid e" if "x \<in> set (business_state st)" for x
    using that wf_fk fresh_id by metis
  have new: "\<forall>r \<in> set ?recs. state_key r \<notin> set (map state_key (business_state ?st1))"
  proof
    fix r assume "r \<in> set ?recs"
    then have r: "version_id r = uuid e" by (rule stateRecords_of_version)
    show "state_key r \<notin> set (map state_key (business_state ?st1))"
    proof
      assume "state_key r \<in> set (map state_key (business_state ?st1))"
      then obtain x where x: "x \<in> set (business_state st)" "state_key x = state_key r"
        by auto
      from x(2) r have "version_id x = uuid e" by (simp add: state_key_def)
      with no_old[OF x(1)] show False by simp
    qed
  qed
  have st2: "insert_state ?recs ?st1 = Inr ?st2"
    using insert_state_ok[OF fk d new] by simp
  have fkc: "\<forall>c \<in> set ?chs. version_id_ch c \<in> set (map id_v (context_versions ?st2))"
    using ids1 by (simp add: changeRecords_version del: set_map)
  have st3: "insert_changes ?chs ?st2 = Inr (?st2\<lparr>context_changes := context_changes st @ ?chs\<rparr>)"
    using insert_changes_ok[OF fkc] by simp
  have fin: "?st2\<lparr>context_changes := context_changes st @ ?chs\<rparr> = committed P e request cur st"
    by (simp add: committed_def)
  show ?thesis
  proof (cases "changes request = []")
    case True
    then have "?chs = []" by (simp add: changeRecords_def)
    with fin have "?st2 = committed P e request cur st" by simp
    with commit_ok_empty[OF cur st1 _ True, of ?st2] st2 recs1 show ?thesis by simp
  next
    case False
    from commit_ok[OF cur st1 _ False, of ?st2] st2 st3 recs1 prev1 fin show ?thesis by simp
  qed
qed

lemmas engine_defs = commit_def getCurrentVersion_def getVersionById_def getVersionState_def
  insert_version_def insert_state_def insert_changes_def enforce_single_current_version_def
  new_version_row_def generateVersionHash_def previousState_of_def stateRecords_of_def
  stateRecords_new_def unchangedFields_def changeRecords_def state_key_def empty_store_def
  Let_def rollback_def

lemmas ex_defs = ex_raw_missing_def ex_vz2_def ex_store_z2_def ex_v_empty_def ex_raw_empty_def ex_store3_def
  ex_env3_def ex_req3_def ex_env4_def ex_rollback_def ex_req_empty_def
  ex_req_dup_def ex_store_two_current_def ex_vz_def ex_fz_def ex_store_z_def ex_uz_def
  ex_req_z_def ex_env_z_def ex_platform_def ex_env1_def ex_env2_def ex_req1_def ex_req2_def ex_v1_def
  ex_v2_def ex_fields1_def ex_changes1_def ex_store1_def ex_store2_def ex_fa_def ex_fb_def
  ex_u2_def

lemma ex_commit1:
  "commit ex_platform ''u1'' ex_env1 ex_req1 empty_store = (Inr ex_v1, ex_store1)"
  by (simp add: engine_defs ex_defs)

lemma ex_commit2:
  "commit ex_platform ''u1'' ex_env2 ex_req2 ex_store1 = (Inr ex_v2, ex_store2)"
  by (simp add: engine_defs ex_defs)


lemma wf_store_no_state:
  assumes "wf_store st" "i \<notin> set (map id_v (context_versions st))"
  shows "filter (\<lambda>r. version_id r = i) (business_state st) = []"
proof -
  have "version_id r \<noteq> i" if "r \<in> set (business_state st)" for r
    using that assms unfolding wf_store_def by metis
  then show ?thesis by (simp add: filter_empty_conv)
qed

lemma wf_store_no_changes:
  assumes "wf_store st" "i \<notin> set (map id_v (context_versions st))"
  shows "filter (\<lambda>c. version_id_ch c = i) (context_changes st) = []"
proof -
  have "version_id_ch c \<noteq> i" if "c \<in> set (context_changes st)" for c
    using that assms unfolding wf_store_def by metis
  then show ?thesis by (simp add: filter_empty_conv)
qed

lemma committed_state_rows:
  assumes "wf_store st" "uuid e \<notin> set (map id_v (context_versions st))"
  shows "filter (\<lambda>r. version_id r = uuid e) (business_state (committed P e request cur st)) =
           stateRecords_of (uuid e) (now e) (changes request) cur st"
proof -
  have "filter (\<lambda>r. version_id r = uuid e) (stateRecords_of (uuid e) (now e) (changes request) cur st)
        = stateRecords_of (uuid e) (now e) (changes request) cur st"
    by (simp add: filter_id_conv stateRecords_of_version)
  then show ?thesis
    by (simp add: committed_def wf_store_no_state[OF assms])
qed

lemma committed_change_rows:
  assumes "wf_store st" "uuid e \<notin> set (map id_v (context_versions st))"
  shows "filter (\<lambda>c. version_id_ch c = uuid e) (context_changes (committed P e request cur st)) =
           changeRecords (uuid e) (now e) (previousState_of cur st) (changes request)"
proof -
  have "filter (\<lambda>c. version_id_ch c = uuid e)
          (changeRecords (uuid e) (now e) (previousState_of cur st) (changes request))
        = changeRecords (uuid e) (now e) (previousState_of cur st) (changes request)"
    by (simp add: filter_id_conv changeRecords_version)
  then show ?thesis
    by (simp add: committed_def wf_store_no_changes[OF assms])
qed

lemma commit_Inr_getCurrent:
  assumes "commit P userId e request st = (Inr v, st')"
  shows "getCurrentVersion (user_id_r request) st' = Inr (Some v)"
  using commit_Inr_current(1)[OF assms]
  by (simp add: getCurrentVersion_Inr current_versions_def)

lemma unchangedFields_rename:
  "unchangedFields i chs rows =
     map (\<lambda>field. field\<lparr>version_id := i\<rparr>)
       (filter (\<lambda>field. field_name field \<notin> set (map field_name_u chs)) rows)"
proof -
  have "\<lparr>version_id = i, field_name = field_name field, field_value = field_value field,
         field_type = field_type field, source = source field,
         updated_at = updated_at field\<rparr> = field\<lparr>version_id := i\<rparr>" for field :: BusinessStateField
    by (cases field) simp
  then show ?thesis by (simp add: unchangedFields_def)
qed

lemma unchangedFields_ab:
  assumes "rows = [fa, fb] \<or> rows = [fb, fa]"
    and "field_name fa = ''a''" "field_name fb = ''b''" "field_name_u u = ''a''"
  shows "unchangedFields i [u] rows = [fb\<lparr>version_id := i\<rparr>]"
  using assms by (auto simp: unchangedFields_rename)

lemma getVersionState_ab:
  assumes "filter (\<lambda>r. version_id r = i) (business_state st) = [fa, fb]
           \<or> filter (\<lambda>r. version_id r = i) (business_state st) = [fb, fa]"
    and "field_name fa = ''a''" "field_name fb = ''b''"
  shows "map_of (getVersionState i st) ''a'' = Some fa"
  using assms unfolding getVersionState_def by auto

lemma insert_version_business_state:
  "insert_version new st = Inr st' \<Longrightarrow> business_state st' = business_state st"
  unfolding insert_version_def by (simp split: if_splits) fastforce+

lemma insert_state_changes:
  "insert_state rows st = Inr st' \<Longrightarrow> context_changes st' = context_changes st"
  unfolding insert_state_def by (simp split: if_splits) fastforce+

lemma insert_changes_Inr:
  "insert_changes rows st = Inr st' \<Longrightarrow> context_changes st' = context_changes st @ rows"
  unfolding insert_changes_def by (simp split: if_splits) fastforce+

lemma falsy_iff: "\<not> truthy j \<longleftrightarrow> j \<in> {JNum 0, JBool False, JNull, JStr ''''}"
  by (cases j) auto

text \<open>
  The constraints of the schema hold in every store that calls of the engine build from the
  empty one, whatever the calls return.
\<close>

lemma insert_version_ids:
  assumes "insert_version new st = Inr st'"
  shows "set (map id_v (context_versions st')) = insert (id_v new) (set (map id_v (context_versions st)))"
    and "business_state st' = business_state st"
    and "context_changes st' = context_changes st"
proof -
  from assms have st': "st' = st\<lparr>context_versions :=
      enforce_single_current_version new (context_versions st) @ [new]\<rparr>"
    by (simp add: insert_version_def split: if_splits)
  show "set (map id_v (context_versions st')) = insert (id_v new) (set (map id_v (context_versions st)))"
    using enforce_ids[of new "context_versions st"]
    by (simp add: st' del: set_map add: set_map[symmetric])
  show "business_state st' = business_state st" "context_changes st' = context_changes st"
    by (simp_all add: st')
qed

lemma insert_version_wf:
  assumes "insert_version new st = Inr st'" "wf_store st"
  shows "wf_store st'"
  using assms(2) unfolding wf_store_def insert_version_ids[OF assms(1)] by blast

lemma insert_state_Inr:
  assumes "insert_state rows st = Inr st'"
  shows "st' = st\<lparr>business_state := business_state st @ rows\<rparr>"
    and "\<forall>r \<in> set rows. version_id r \<in> set (map id_v (context_versions st))"
    and "distinct (map state_key rows)"
    and "\<forall>r \<in> set rows. state_key r \<notin> set (map state_key (business_state st))"
  using assms unfolding insert_state_def by (simp_all split: if_splits)

lemma insert_state_wf:
  assumes "insert_state rows st = Inr st'" "wf_store st"
  shows "wf_store st'"
proof -
  note r = insert_state_Inr[OF assms(1)]
  from assms(2) r(2,3,4) show ?thesis
    unfolding wf_store_def r(1) by (auto simp: image_iff)
qed

lemma insert_changes_wf:
  assumes "insert_changes rows st = Inr st'" "wf_store st"
  shows "wf_store st'"
proof -
  from assms(1) have "st' = st\<lparr>context_changes := context_changes st @ rows\<rparr>"
    and "\<forall>r \<in> set rows. version_id_ch r \<in> set (map id_v (context_versions st))"
    unfolding insert_changes_def by (simp_all split: if_splits)
  with assms(2) show ?thesis unfolding wf_store_def by auto
qed

lemma commit_wf_store:
  assumes "wf_store st"
  shows "wf_store (snd (commit P userId e request st))"
proof -
  obtain cur where cur: "getCurrentVersion userId st = Inr cur"
    by (simp add: getCurrentVersion_Inr)
  show ?thesis
  proof (cases "insert_version (new_version_row P e request cur) st")
    case (Inl pe)
    show ?thesis using assms by (simp add: commit_version_err[OF cur Inl])
  next
    case st1: (Inr st1)
    have wf1: "wf_store st1" by (rule insert_version_wf[OF st1 assms])
    show ?thesis
    proof (cases "insert_state (stateRecords_of (uuid e) (now e) (changes request) cur st1) st1")
      case (Inl pe)
      show ?thesis using wf1 by (simp add: commit_state_err[OF cur st1 Inl])
    next
      case st2: (Inr st2)
      have wf2: "wf_store st2" by (rule insert_state_wf[OF st2 wf1])
      show ?thesis
      proof (cases "changes request = []")
        case True
        show ?thesis using wf2 by (simp add: commit_ok_empty[OF cur st1 st2 True])
      next
        case False
        show ?thesis
        proof (cases "insert_changes (changeRecords (uuid e) (now e) (previousState_of cur st1) (changes request)) st2")
          case (Inl pe)
          show ?thesis using wf2 by (simp add: commit_changes_err[OF cur st1 st2 False Inl])
        next
          case (Inr st3)
          show ?thesis
            using insert_changes_wf[OF Inr wf2] by (simp add: commit_ok[OF cur st1 st2 False Inr])
        qed
      qed
    qed
  qed
qed

lemma rollback_wf_store:
  assumes "wf_store st"
  shows "wf_store (snd (rollback P userId e request st))"
proof (cases "getVersionById (version_id_rb request) st")
  case (Inl err)
  then show ?thesis using assms by (simp add: rollback_def)
next
  case (Inr target)
  then show ?thesis
    using assms commit_wf_store
    by (cases target) (simp_all add: rollback_def Let_def)
qed

lemma run_wf_store: "wf_store (run P ops empty_store)"
proof -
  have step: "wf_store st \<Longrightarrow> wf_store (apply_operation P op st)" for op st
    by (cases op) (simp_all add: commit_wf_store rollback_wf_store)
  have "wf_store st \<Longrightarrow> wf_store (run P ops st)" for st
    unfolding run_def by (induction ops arbitrary: st) (simp_all add: step)
  moreover have "wf_store empty_store" by (simp add: wf_store_def empty_store_def)
  ultimately show ?thesis by blast
qed

section \<open>Properties of the temporal query and of diff\<close>












lemma getVersionById_Inr:
  "getVersionById versionId st =
     Inr (fst (single (filter (\<lambda>v. id_v v = versionId) (context_versions st))))"
  unfolding getVersionById_def
  by (cases "filter (\<lambda>v. id_v v = versionId) (context_versions st)" rule: single.cases)
     simp_all

lemma calculate_version_diff_raises:
  "calculate_version_diff A B st = Inl AmbiguousColumn"
  by (simp add: calculate_version_diff_def unqualified_references_def ambiguous_def
        returns_table_def parameters_def business_state_columns_def)

lemma diff_raises:
  "diff today A B st = Inl (FailedToCalculateDiff AmbiguousColumn)"
  by (simp add: diff_def calculate_version_diff_raises)

lemma version_diff_query_fields:
  "version_diff_query A B st =
     filter (\<lambda>row. old_value_d row \<noteq> new_value_d row)
       (map diff_row (full_outer_join (version_fields A st) (version_fields B st)))"
  by (simp add: version_diff_query_def version_fields_def)

lemma join_row_set:
  "set (case filter (\<lambda>t. fst t = fst x) T of
          [] \<Rightarrow> [(Some x, None)]
        | ts \<Rightarrow> map (\<lambda>t. (Some x, Some t)) ts) =
     (if fst x \<notin> fst ` set T then {(Some x, None)}
      else (\<lambda>t. (Some x, Some t)) ` {t \<in> set T. fst t = fst x})"
proof (cases "filter (\<lambda>t. fst t = fst x) T")
  case Nil
  then have "fst x \<notin> fst ` set T"
    by (auto simp: filter_empty_conv)
  with Nil show ?thesis by simp
next
  case (Cons t ts)
  then have "t \<in> set (filter (\<lambda>t. fst t = fst x) T)" by simp
  then have in_T: "fst x \<in> fst ` set T" by force
  have "set (t # ts) = {t \<in> set T. fst t = fst x}"
    unfolding Cons[symmetric] by simp
  then have "set (map (\<lambda>t. (Some x, Some t)) (t # ts)) =
      (\<lambda>t. (Some x, Some t)) ` {t \<in> set T. fst t = fst x}"
    by (simp only: set_map)
  with in_T Cons show ?thesis by simp
qed

lemma join_row_mem:
  "ft \<in> set (case filter (\<lambda>t. fst t = fst x) T of
          [] \<Rightarrow> [(Some x, None)]
        | ts \<Rightarrow> map (\<lambda>t. (Some x, Some t)) ts) \<longleftrightarrow>
     (fst x \<notin> fst ` set T \<and> ft = (Some x, None))
     \<or> (\<exists>t \<in> set T. fst t = fst x \<and> ft = (Some x, Some t))"
proof (cases "fst x \<in> fst ` set T")
  case True
  then show ?thesis unfolding join_row_set by auto
next
  case False
  then have "\<And>t. t \<in> set T \<Longrightarrow> fst t \<noteq> fst x" by force
  with False show ?thesis unfolding join_row_set by auto
qed

lemma join_iff:
  "ft \<in> set (full_outer_join F T) \<longleftrightarrow>
     (\<exists>x. ft = (Some x, None) \<and> x \<in> set F \<and> fst x \<notin> fst ` set T)
     \<or> (\<exists>x t. ft = (Some x, Some t) \<and> x \<in> set F \<and> t \<in> set T \<and> fst t = fst x)
     \<or> (\<exists>t. ft = (None, Some t) \<and> t \<in> set T \<and> fst t \<notin> fst ` set F)"
proof -
  have "ft \<in> set (concat (map (\<lambda>f. case filter (\<lambda>t. fst t = fst f) T of
                          [] \<Rightarrow> [(Some f, None)]
                        | ts \<Rightarrow> map (\<lambda>t. (Some f, Some t)) ts) F)) \<longleftrightarrow>
     (\<exists>x \<in> set F. (fst x \<notin> fst ` set T \<and> ft = (Some x, None))
        \<or> (\<exists>t \<in> set T. fst t = fst x \<and> ft = (Some x, Some t)))"
    by (simp only: set_concat set_map UN_iff bex_simps image_iff join_row_mem)
  then have l: "ft \<in> set (concat (map (\<lambda>f. case filter (\<lambda>t. fst t = fst f) T of
                          [] \<Rightarrow> [(Some f, None)]
                        | ts \<Rightarrow> map (\<lambda>t. (Some f, Some t)) ts) F)) \<longleftrightarrow>
     (\<exists>x. ft = (Some x, None) \<and> x \<in> set F \<and> fst x \<notin> fst ` set T)
     \<or> (\<exists>x t. ft = (Some x, Some t) \<and> x \<in> set F \<and> t \<in> set T \<and> fst t = fst x)"
    by blast
  have r: "ft \<in> set (map (\<lambda>t. (None, Some t)) (filter (\<lambda>t. fst t \<notin> set (map fst F)) T)) \<longleftrightarrow>
     (\<exists>t. ft = (None, Some t) \<and> t \<in> set T \<and> fst t \<notin> fst ` set F)"
    by auto
  show ?thesis
    unfolding full_outer_join_def set_append Un_iff l r by blast
qed

lemma query_marks_iff:
  "query_marks A B st name ty \<longleftrightarrow>
     (\<exists>ft \<in> set (full_outer_join (version_fields A st) (version_fields B st)).
        old_value_d (diff_row ft) \<noteq> new_value_d (diff_row ft)
        \<and> field_name_d (diff_row ft) = name \<and> change_type_d (diff_row ft) = ty)"
  by (auto simp: query_marks_def version_diff_query_fields)

lemma diff_row_left:
  "diff_row (Some x, None) =
     \<lparr>field_name_d = fst x, old_value_d = Some (snd x), new_value_d = None,
      change_type_d = Removed\<rparr>"
  by (simp add: diff_row_def)

lemma diff_row_right:
  "diff_row (None, Some t) =
     \<lparr>field_name_d = fst t, old_value_d = None, new_value_d = Some (snd t),
      change_type_d = Added\<rparr>"
  by (simp add: diff_row_def)

lemma diff_row_both:
  "diff_row (Some x, Some t) =
     \<lparr>field_name_d = fst x, old_value_d = Some (snd x), new_value_d = Some (snd t),
      change_type_d = (if snd x \<noteq> snd t then Modified else Unchanged)\<rparr>"
  by (simp add: diff_row_def)

lemma query_marks_cases:
  "query_marks A B st name ty \<longleftrightarrow>
     (ty = Removed \<and> (\<exists>x \<in> set (version_fields A st). fst x = name
                          \<and> name \<notin> fst ` set (version_fields B st)))
     \<or> (ty = Modified \<and> (\<exists>x \<in> set (version_fields A st). \<exists>t \<in> set (version_fields B st).
                             fst x = name \<and> fst t = name \<and> snd x \<noteq> snd t))
     \<or> (ty = Added \<and> (\<exists>t \<in> set (version_fields B st). fst t = name
                          \<and> name \<notin> fst ` set (version_fields A st)))"
  (is "?L \<longleftrightarrow> ?R")
proof
  assume ?L
  then obtain ft where ft: "ft \<in> set (full_outer_join (version_fields A st) (version_fields B st))"
    and keep: "old_value_d (diff_row ft) \<noteq> new_value_d (diff_row ft)"
    and nm: "field_name_d (diff_row ft) = name" and ty: "change_type_d (diff_row ft) = ty"
    unfolding query_marks_iff by blast
  from ft consider
      (left) x where "ft = (Some x, None)" "x \<in> set (version_fields A st)"
        "fst x \<notin> fst ` set (version_fields B st)"
    | (both) x t where "ft = (Some x, Some t)" "x \<in> set (version_fields A st)"
        "t \<in> set (version_fields B st)" "fst t = fst x"
    | (right) t where "ft = (None, Some t)" "t \<in> set (version_fields B st)"
        "fst t \<notin> fst ` set (version_fields A st)"
    unfolding join_iff by blast
  then show ?R
  proof cases
    case left
    with nm ty show ?thesis by (auto simp: diff_row_left)
  next
    case both
    with nm ty keep show ?thesis by (auto simp: diff_row_both split: if_splits)
  next
    case right
    with nm ty show ?thesis by (auto simp: diff_row_right)
  qed
next
  assume ?R
  then consider
      (left) x where "ty = Removed" "x \<in> set (version_fields A st)" "fst x = name"
        "name \<notin> fst ` set (version_fields B st)"
    | (both) x t where "ty = Modified" "x \<in> set (version_fields A st)"
        "t \<in> set (version_fields B st)" "fst x = name" "fst t = name" "snd x \<noteq> snd t"
    | (right) t where "ty = Added" "t \<in> set (version_fields B st)" "fst t = name"
        "name \<notin> fst ` set (version_fields A st)"
    by blast
  then show ?L
  proof cases
    case left
    then have "(Some x, None) \<in> set (full_outer_join (version_fields A st) (version_fields B st))"
      unfolding join_iff by blast
    with left show ?thesis
      unfolding query_marks_iff by (intro bexI[of _ "(Some x, None)"]) (simp_all add: diff_row_left)
  next
    case both
    then have "(Some x, Some t) \<in> set (full_outer_join (version_fields A st) (version_fields B st))"
      unfolding join_iff by simp
    with both show ?thesis
      unfolding query_marks_iff
      by (intro bexI[of _ "(Some x, Some t)"]) (simp_all add: diff_row_both)
  next
    case right
    then have "(None, Some t) \<in> set (full_outer_join (version_fields A st) (version_fields B st))"
      unfolding join_iff by blast
    with right show ?thesis
      unfolding query_marks_iff by (intro bexI[of _ "(None, Some t)"]) (simp_all add: diff_row_right)
  qed
qed


text \<open>
  The query alone classifies the names of the two versions, leaving out those whose values are
  equal, and what it marks as added from one version to the other it marks as removed the
  other way round.
\<close>

lemma query_classification:
  "(query_marks A B st name Added \<longleftrightarrow>
      name \<in> fst ` set (version_fields B st) \<and> name \<notin> fst ` set (version_fields A st))
   \<and> (query_marks A B st name Removed \<longleftrightarrow>
      name \<in> fst ` set (version_fields A st) \<and> name \<notin> fst ` set (version_fields B st))
   \<and> (query_marks A B st name Modified \<longleftrightarrow>
      (\<exists>x y. (name, x) \<in> set (version_fields A st) \<and> (name, y) \<in> set (version_fields B st)
             \<and> x \<noteq> y))
   \<and> \<not> query_marks A B st name Unchanged"
proof -
  have a: "query_marks A B st name Added \<longleftrightarrow>
      name \<in> fst ` set (version_fields B st) \<and> name \<notin> fst ` set (version_fields A st)"
    unfolding query_marks_cases by force
  have r: "query_marks A B st name Removed \<longleftrightarrow>
      name \<in> fst ` set (version_fields A st) \<and> name \<notin> fst ` set (version_fields B st)"
    unfolding query_marks_cases by force
  have m: "query_marks A B st name Modified \<longleftrightarrow>
      (\<exists>x y. (name, x) \<in> set (version_fields A st) \<and> (name, y) \<in> set (version_fields B st)
             \<and> x \<noteq> y)"
    unfolding query_marks_cases by force
  have u: "\<not> query_marks A B st name Unchanged"
    unfolding query_marks_cases by simp
  from a r m u show ?thesis by simp
qed

lemma query_symmetry:
  "query_marks A B st name Added \<longleftrightarrow> query_marks B A st name Removed"
  unfolding query_marks_cases by simp

lemmas diff_defs = diff_marks_def query_marks_def version_diff_query_def full_outer_join_def
  diff_row_def version_fields_def

section \<open>Single current version\<close>

text \<open>
  Claim C1. After every sequence of commit (and rollback) calls on the empty store, each
  owner has exactly one version flagged current if the owner has any version at all, and
  none otherwise. A commit that returns a version makes that version the only current one
  of its owner, and every earlier version of the owner is then present with the flag off.
\<close>

theorem single_current_invariant:
  "length (current_versions owner (run P ops empty_store)) =
     (if owner \<in> user_id ` set (context_versions (run P ops empty_store)) then 1 else 0)
   \<and> (commit P userId e request (run P ops empty_store) = (Inr v, st') \<longrightarrow>
        current_versions (user_id_r request) st' = [v]
        \<and> (\<forall>w \<in> set (context_versions (run P ops empty_store)).
              user_id w = user_id_r request \<longrightarrow>
              w\<lparr>is_current := False\<rparr> \<in> set (context_versions st')))"
proof -
  have "single_current (run P ops empty_store)"
    by (rule run_single_current[OF empty_single_current])
  then show ?thesis
    using commit_Inr_current[of P userId e request "run P ops empty_store" v st']
    by (auto simp: single_current_def)
qed


theorem single_current_invariant_witness:
  "length (current_versions ''u1'' (run ex_platform [] empty_store)) = 0
   \<and> commit ex_platform ''u1'' ex_env2 ex_req2
         (run ex_platform [Commit ''u1'' ex_env1 ex_req1] empty_store) = (Inr ex_v2, ex_store2)
   \<and> length (current_versions ''u1''
         (run ex_platform [Commit ''u1'' ex_env1 ex_req1] empty_store)) = 1
   \<and> current_versions ''u1'' ex_store2 = [ex_v2]
   \<and> ex_v1\<lparr>is_current := False\<rparr> \<in> set (context_versions ex_store2)"
proof -
  have r: "run ex_platform [Commit ''u1'' ex_env1 ex_req1] empty_store = ex_store1"
    by (simp add: run_def ex_commit1)
  have u: "user_id_r ex_req2 = ''u1''" "user_id ex_v1 = ''u1''"
    by (simp_all add: ex_req2_def ex_v1_def)
  have m: "ex_v1 \<in> set (context_versions ex_store1)"
    by (simp add: ex_store1_def)
  have mem: "''u1'' \<in> user_id ` set (context_versions ex_store1)"
    by (simp add: ex_store1_def ex_v1_def)
  from single_current_invariant[of "''u1''" ex_platform "[]" "''u1''" ex_env2 ex_req2 ex_v2 ex_store2]
  have z: "length (current_versions ''u1'' (run ex_platform [] empty_store)) = 0"
    by (simp add: run_def empty_store_def)
  note t = single_current_invariant[of "''u1''" ex_platform "[Commit ''u1'' ex_env1 ex_req1]"
      "''u1''" ex_env2 ex_req2 ex_v2 ex_store2, unfolded r]
  from t mem have a: "length (current_versions ''u1'' ex_store1) = 1"
    by simp
  from t have b: "current_versions ''u1'' ex_store2 = [ex_v2]"
    and c: "\<forall>w \<in> set (context_versions ex_store1).
              user_id w = ''u1'' \<longrightarrow> w\<lparr>is_current := False\<rparr> \<in> set (context_versions ex_store2)"
    by (simp_all add: ex_commit2 u)
  from c m u have "ex_v1\<lparr>is_current := False\<rparr> \<in> set (context_versions ex_store2)"
    by blast
  with z a b show ?thesis by (simp add: r ex_commit2)
qed

section \<open>Copy-forward\<close>

text \<open>
  Claim C2. When the current version of an owner holds exactly the fields \<open>a = 1\<close> and
  \<open>b = "x"\<close>, committing the single update \<open>a = 2\<close> (with a fresh id and hash, on a store
  that satisfies the schema's constraints) returns a new version that is the owner's current
  one; its state is \<open>a = 2\<close> with the request's type and source and the commit's time,
  and \<open>b\<close> as the parent's row with only the version id replaced; exactly one change row
  belongs to it, the update of \<open>a\<close> from \<open>1\<close> to \<open>2\<close>.
\<close>

theorem copy_forward:
  assumes cur: "getCurrentVersion owner st = Inr (Some cur)"
    and rows: "filter (\<lambda>r. version_id r = id_v cur) (business_state st) = [fa, fb]
               \<or> filter (\<lambda>r. version_id r = id_v cur) (business_state st) = [fb, fa]"
    and fa: "field_name fa = ''a''" "field_value fa = JNum 1"
    and fb: "field_name fb = ''b''" "field_value fb = JStr ''x''"
    and req: "user_id_r request = owner" "changes request = [u]"
             "field_name_u u = ''a''" "field_value_u u = JNum 2"
    and wf: "wf_store st"
    and fresh_id: "uuid e \<notin> set (map id_v (context_versions st))"
    and fresh_hash: "generateVersionHash P owner (commit_message_r request) (now e) (random e)
                       \<notin> set (map version_hash (context_versions st))"
  shows "\<exists>v st'. commit P owner e request st = (Inr v, st')
           \<and> getCurrentVersion owner st' = Inr (Some v)
           \<and> getVersionState (id_v v) st' =
               [(''a'', \<lparr>version_id = id_v v, field_name = ''a'', field_value = JNum 2,
                         field_type = field_type_u u, source = source_u u,
                         updated_at = now e\<rparr>),
                (''b'', fb\<lparr>version_id := id_v v\<rparr>)]
           \<and> filter (\<lambda>c. version_id_ch c = id_v v) (context_changes st') =
               [\<lparr>version_id_ch = id_v v, field_name_ch = ''a'', old_value = JNum 1,
                 new_value = JNum 2, change_type = Update, source_ch = source_u u,
                 created_at_ch = now e\<rparr>]"
proof -
  let ?v = "new_version_row P e request (Some cur)"
  let ?st' = "committed P e request (Some cur) st"
  have idv: "id_v ?v = uuid e" by (simp add: new_version_row_def)
  have c: "commit P owner e request st = (Inr ?v, ?st')"
    using fresh_hash by (intro commit_success[OF cur fresh_id _ wf]) (simp_all add: req)
  have g: "getCurrentVersion owner ?st' = Inr (Some ?v)"
    using commit_Inr_getCurrent[OF c] by (simp add: req)
  have prev: "map_of (previousState_of (Some cur) st) ''a'' = Some fa"
    using getVersionState_ab[OF rows fa(1) fb(1)] by (simp add: previousState_of_def)
  have recs: "stateRecords_of (uuid e) (now e) [u] (Some cur) st =
      [\<lparr>version_id = uuid e, field_name = ''a'', field_value = JNum 2,
        field_type = field_type_u u, source = source_u u, updated_at = now e\<rparr>,
       fb\<lparr>version_id := uuid e\<rparr>]"
    using unchangedFields_ab[OF rows fa(1) fb(1) req(3), of "uuid e"] req
    by (simp add: stateRecords_of_def stateRecords_new_def)
  have s: "getVersionState (uuid e) ?st' =
      [(''a'', \<lparr>version_id = uuid e, field_name = ''a'', field_value = JNum 2,
                field_type = field_type_u u, source = source_u u, updated_at = now e\<rparr>),
       (''b'', fb\<lparr>version_id := uuid e\<rparr>)]"
    unfolding getVersionState_def committed_state_rows[OF wf fresh_id] req recs
    by (simp add: fb)
  have ch: "filter (\<lambda>c. version_id_ch c = uuid e) (context_changes ?st') =
      [\<lparr>version_id_ch = uuid e, field_name_ch = ''a'', old_value = JNum 1,
        new_value = JNum 2, change_type = Update, source_ch = source_u u,
        created_at_ch = now e\<rparr>]"
    unfolding committed_change_rows[OF wf fresh_id] req
    by (simp add: changeRecords_def req prev fa)
  from c g s ch show ?thesis
    by (intro exI[of _ ?v] exI[of _ ?st']) (simp only: idv simp_thms)
qed


theorem copy_forward_witness:
  "getCurrentVersion ''u1'' ex_store1 = Inr (Some ex_v1)
   \<and> filter (\<lambda>r. version_id r = id_v ex_v1) (business_state ex_store1) = [ex_fa, ex_fb]
   \<and> wf_store ex_store1
   \<and> (\<exists>v st'. commit ex_platform ''u1'' ex_env2 ex_req2 ex_store1 = (Inr v, st')
         \<and> getCurrentVersion ''u1'' st' = Inr (Some v)
         \<and> getVersionState (id_v v) st' =
             [(''a'', \<lparr>version_id = id_v v, field_name = ''a'', field_value = JNum 2,
                       field_type = FNumber, source = Manual, updated_at = 2000\<rparr>),
              (''b'', ex_fb\<lparr>version_id := id_v v\<rparr>)]
         \<and> filter (\<lambda>c. version_id_ch c = id_v v) (context_changes st') =
             [\<lparr>version_id_ch = id_v v, field_name_ch = ''a'', old_value = JNum 1,
               new_value = JNum 2, change_type = Update, source_ch = Manual,
               created_at_ch = 2000\<rparr>])"
proof -
  have cur: "getCurrentVersion ''u1'' ex_store1 = Inr (Some ex_v1)"
    by (simp add: getCurrentVersion_def ex_store1_def ex_v1_def)
  have rows: "filter (\<lambda>r. version_id r = id_v ex_v1) (business_state ex_store1) = [ex_fa, ex_fb]"
    by (simp add: ex_store1_def ex_fields1_def ex_fa_def ex_fb_def ex_v1_def)
  have wf: "wf_store ex_store1"
    by (simp add: wf_store_def state_key_def ex_defs)
  have fresh_id: "uuid ex_env2 \<notin> set (map id_v (context_versions ex_store1))"
    by (simp add: ex_defs)
  have fresh_hash: "generateVersionHash ex_platform ''u1'' (commit_message_r ex_req2)
      (now ex_env2) (random ex_env2) \<notin> set (map version_hash (context_versions ex_store1))"
    by (simp add: generateVersionHash_def ex_defs)
  from copy_forward[where owner="''u1''" and st=ex_store1 and cur=ex_v1 and fa=ex_fa
      and fb=ex_fb and request=ex_req2 and u=ex_u2 and e=ex_env2 and P=ex_platform]
    cur rows wf fresh_id fresh_hash
  have "\<exists>v st'. commit ex_platform ''u1'' ex_env2 ex_req2 ex_store1 = (Inr v, st')
         \<and> getCurrentVersion ''u1'' st' = Inr (Some v)
         \<and> getVersionState (id_v v) st' =
             [(''a'', \<lparr>version_id = id_v v, field_name = ''a'', field_value = JNum 2,
                       field_type = field_type_u ex_u2, source = source_u ex_u2,
                       updated_at = now ex_env2\<rparr>),
              (''b'', ex_fb\<lparr>version_id := id_v v\<rparr>)]
         \<and> filter (\<lambda>c. version_id_ch c = id_v v) (context_changes st') =
             [\<lparr>version_id_ch = id_v v, field_name_ch = ''a'', old_value = JNum 1,
               new_value = JNum 2, change_type = Update, source_ch = source_u ex_u2,
               created_at_ch = now ex_env2\<rparr>]"
    by (simp add: ex_fa_def ex_fb_def ex_req2_def ex_u2_def)
  then have "\<exists>v st'. commit ex_platform ''u1'' ex_env2 ex_req2 ex_store1 = (Inr v, st')
         \<and> getCurrentVersion ''u1'' st' = Inr (Some v)
         \<and> getVersionState (id_v v) st' =
             [(''a'', \<lparr>version_id = id_v v, field_name = ''a'', field_value = JNum 2,
                       field_type = FNumber, source = Manual, updated_at = 2000\<rparr>),
              (''b'', ex_fb\<lparr>version_id := id_v v\<rparr>)]
         \<and> filter (\<lambda>c. version_id_ch c = id_v v) (context_changes st') =
             [\<lparr>version_id_ch = id_v v, field_name_ch = ''a'', old_value = JNum 1,
               new_value = JNum 2, change_type = Update, source_ch = Manual,
               created_at_ch = 2000\<rparr>]"
    by (simp add: ex_u2_def ex_env2_def)
  with cur rows wf show ?thesis by simp
qed

section \<open>Rollback\<close>

text \<open>
  Claim C3 says that after a rollback to a version \<open>V\<close> the current state equals the state
  of \<open>V\<close>. The engine commits the fields of \<open>V\<close> as updates, and \<^verbatim>\<open>commit\<close> copies
  forward every field of the current version that \<open>V\<close> does not name. In the example the
  third version added the field \<open>c\<close>; after the rollback to the first version the current
  state still holds \<open>c\<close>, which the first version does not.
\<close>

theorem rollback_keeps_later_fields:
  "(case rollback ex_platform ''u1'' ex_env4 ex_rollback ex_store3 of
      (Inr v, st') \<Rightarrow>
        getCurrentVersion ''u1'' st' = Inr (Some v)
        \<and> map (\<lambda>(n, f). (n, field_value f)) (getVersionState (id_v v) st') =
            [(''a'', JNum 1), (''b'', JStr ''x''), (''c'', JBool True)]
        \<and> map (\<lambda>(n, f). (n, field_value f)) (getVersionState ''v1'' st') =
            [(''a'', JNum 1), (''b'', JStr ''x'')]
    | (Inl err, st') \<Rightarrow> False)"
  by (simp add: engine_defs ex_defs)

section \<open>Validation of a commit request\<close>

text \<open>
  Claim C4 as stated fails: a request whose list of updates is empty is accepted, by the
  engine and by the route; the commit returns a version and writes its row. A request that
  names a field twice fails, but with the store's error for the violated constraint and after
  the version row \<open>v2\<close> has been written.
\<close>

theorem commit_empty_updates_counterexample:
  "changes ex_req_empty = []
   \<and> commit ex_platform ''u1'' ex_env1 ex_req_empty empty_store =
       (Inr ex_v_empty,
        \<lparr>context_versions = [ex_v_empty], business_state = [], context_changes = []\<rparr>)
   \<and> post_commit ex_platform ex_env1 ex_raw_empty empty_store =
       (Status201 ex_v_empty,
        \<lparr>context_versions = [ex_v_empty], business_state = [], context_changes = []\<rparr>)
   \<and> fst (commit ex_platform ''u1'' ex_env2 ex_req_dup ex_store1) =
       Inl (FailedToInsertState UniqueViolation)
   \<and> map id_v (context_versions (snd (commit ex_platform ''u1'' ex_env2 ex_req_dup ex_store1)))
       = [''v1'', ''v2'']"
  by (simp add: post_commit_def falsy_string_def engine_defs ex_defs)

text \<open>
  Claim C4, amended. \<^verbatim>\<open>commit\<close> does not validate the list of updates. With an empty
  list (a fresh id and hash, a store that satisfies the schema's constraints) it returns the
  new version, which is written as the owner's current one, together with the parent's field
  rows copied under the new version id; the change log is left as it was. The route answers
  400 exactly when the user id or the message is missing or empty or the list is missing,
  and then it leaves the store as it was.
\<close>

theorem commit_empty_updates:
  assumes cur: "getCurrentVersion userId st = Inr cur"
    and fresh_id: "uuid e \<notin> set (map id_v (context_versions st))"
    and fresh_hash: "generateVersionHash P (user_id_r request) (commit_message_r request)
                       (now e) (random e) \<notin> set (map version_hash (context_versions st))"
    and wf: "wf_store st"
    and empty: "changes request = []"
  shows "commit P userId e request st =
           (Inr (new_version_row P e request cur),
            st\<lparr>context_versions :=
                 enforce_single_current_version (new_version_row P e request cur)
                   (context_versions st) @ [new_version_row P e request cur],
               business_state := business_state st @
                 (case cur of None \<Rightarrow> []
                  | Some cv \<Rightarrow> map (\<lambda>field. field\<lparr>version_id := uuid e\<rparr>)
                      (filter (\<lambda>r. version_id r = id_v cv) (business_state st)))\<rparr>)
         \<and> (fst (post_commit P e raw st) = Status400 \<longleftrightarrow>
              raw_user_id raw \<in> {None, Some []} \<or> raw_commit_message raw \<in> {None, Some []}
              \<or> raw_changes raw = None)
         \<and> (fst (post_commit P e raw st) = Status400 \<longrightarrow> snd (post_commit P e raw st) = st)"
proof -
  have "commit P userId e request st =
          (Inr (new_version_row P e request cur), committed P e request cur st)"
    using empty by (intro commit_success[OF cur fresh_id fresh_hash wf]) simp
  moreover have "committed P e request cur st =
      st\<lparr>context_versions :=
           enforce_single_current_version (new_version_row P e request cur)
             (context_versions st) @ [new_version_row P e request cur],
         business_state := business_state st @
           (case cur of None \<Rightarrow> []
            | Some cv \<Rightarrow> map (\<lambda>field. field\<lparr>version_id := uuid e\<rparr>)
                (filter (\<lambda>r. version_id r = id_v cv) (business_state st)))\<rparr>"
    using empty
    by (simp add: committed_def stateRecords_of_def stateRecords_new_def changeRecords_def
          unchangedFields_rename split: option.split)
  moreover have "fst (post_commit P e raw st) = Status400 \<longleftrightarrow>
              raw_user_id raw \<in> {None, Some []} \<or> raw_commit_message raw \<in> {None, Some []}
              \<or> raw_changes raw = None"
    by (auto simp: post_commit_def falsy_string_def split: option.splits prod.splits sum.splits)
  moreover have "fst (post_commit P e raw st) = Status400 \<longrightarrow> snd (post_commit P e raw st) = st"
    by (auto simp: post_commit_def split: prod.splits sum.splits)
  ultimately show ?thesis by simp
qed


theorem commit_empty_updates_witness:
  "wf_store ex_store1
   \<and> getCurrentVersion ''u1'' ex_store1 = Inr (Some ex_v1)
   \<and> changes ex_req_empty = []
   \<and> (\<exists>v. commit ex_platform ''u1'' ex_env2 ex_req_empty ex_store1 =
        (Inr v, ex_store1\<lparr>context_versions := [ex_v1\<lparr>is_current := False\<rparr>, v],
                   business_state := ex_fields1 @
                     [ex_fa\<lparr>version_id := ''v2''\<rparr>, ex_fb\<lparr>version_id := ''v2''\<rparr>]\<rparr>))
   \<and> fst (post_commit ex_platform ex_env2 ex_raw_empty ex_store1) \<noteq> Status400
   \<and> raw_changes ex_raw_missing = None
   \<and> post_commit ex_platform ex_env2 ex_raw_missing ex_store1 = (Status400, ex_store1)"
proof -
  have cur: "getCurrentVersion ''u1'' ex_store1 = Inr (Some ex_v1)"
    by (simp add: getCurrentVersion_def ex_store1_def ex_v1_def)
  have wf: "wf_store ex_store1"
    by (simp add: wf_store_def state_key_def ex_defs)
  have fresh_id: "uuid ex_env2 \<notin> set (map id_v (context_versions ex_store1))"
    by (simp add: ex_defs)
  have fresh_hash: "generateVersionHash ex_platform (user_id_r ex_req_empty)
      (commit_message_r ex_req_empty) (now ex_env2) (random ex_env2)
        \<notin> set (map version_hash (context_versions ex_store1))"
    by (simp add: generateVersionHash_def ex_defs)
  have empty: "changes ex_req_empty = []" by (simp add: ex_req_empty_def)
  note t = commit_empty_updates[OF cur fresh_id fresh_hash wf empty, of ex_raw_empty]
  from t have a: "commit ex_platform ''u1'' ex_env2 ex_req_empty ex_store1 =
      (Inr (new_version_row ex_platform ex_env2 ex_req_empty (Some ex_v1)),
       ex_store1\<lparr>context_versions :=
           [ex_v1\<lparr>is_current := False\<rparr>,
            new_version_row ex_platform ex_env2 ex_req_empty (Some ex_v1)],
         business_state := ex_fields1 @
           [ex_fa\<lparr>version_id := ''v2''\<rparr>, ex_fb\<lparr>version_id := ''v2''\<rparr>]\<rparr>)"
    by (simp add: enforce_single_current_version_def new_version_row_def ex_defs)
  from t have b: "fst (post_commit ex_platform ex_env2 ex_raw_empty ex_store1) \<noteq> Status400"
    by (simp add: ex_raw_empty_def)
  have m: "raw_changes ex_raw_missing = None" by (simp add: ex_raw_missing_def)
  note t' = commit_empty_updates[OF cur fresh_id fresh_hash wf empty, of ex_raw_missing]
  from t' m have "fst (post_commit ex_platform ex_env2 ex_raw_missing ex_store1) = Status400"
    "snd (post_commit ex_platform ex_env2 ex_raw_missing ex_store1) = ex_store1"
    by simp_all
  then have c: "post_commit ex_platform ex_env2 ex_raw_missing ex_store1 = (Status400, ex_store1)"
    by (simp add: prod_eq_iff)
  from a b c m cur wf empty show ?thesis by blast
qed

section \<open>More than one current row\<close>

text \<open>
  Claim C6 says that \<^verbatim>\<open>getCurrentVersion\<close> fails with a consistency error when the
  store holds more than one current row of the user. \<^verbatim>\<open>.single()\<close> reports that case
  with the same code as an empty result, which the engine lets pass: on a store with two
  current versions of \<open>u1\<close> the result is \<^verbatim>\<open>null\<close>, as on the empty store.
\<close>

theorem getCurrentVersion_two_current:
  "length (current_versions ''u1'' ex_store_two_current) = 2
   \<and> getCurrentVersion ''u1'' ex_store_two_current = Inr None
   \<and> getCurrentVersion ''u1'' empty_store = Inr None"
  by (simp add: getCurrentVersion_def current_versions_def empty_store_def
        ex_store_two_current_def ex_v1_def ex_v2_def)

section \<open>Old value of a falsy field\<close>

text \<open>
  Claim C10. When a commit that returns a version updates a field whose value in the parent's
  state is \<open>0\<close>, \<open>false\<close>, \<open>null\<close> or the empty string, the change row written for
  that update has \<^verbatim>\<open>old_value\<close> \<open>null\<close> and \<^verbatim>\<open>change_type\<close> \<open>update\<close>.
\<close>

theorem falsy_old_value:
  assumes c: "commit P userId e request st = (Inr v, st')"
    and cur: "getCurrentVersion userId st = Inr (Some cur)"
    and f: "map_of (getVersionState (id_v cur) st) name = Some f"
    and falsy: "field_value f \<in> {JNum 0, JBool False, JNull, JStr ''''}"
    and u: "u \<in> set (changes request)" "field_name_u u = name"
  shows "\<lparr>version_id_ch = id_v v, field_name_ch = name, old_value = JNull,
          new_value = field_value_u u, change_type = Update, source_ch = source_u u,
          created_at_ch = now e\<rparr> \<in> set (context_changes st')"
proof -
  from c obtain cur' st1 st2 where
    cur': "getCurrentVersion userId st = Inr cur'"
    and v: "v = new_version_row P e request cur'"
    and st1: "insert_version v st = Inr st1"
    and st2: "insert_state (stateRecords_of (uuid e) (now e) (changes request) cur' st1) st1 = Inr st2"
    and st3: "if changes request = [] then st' = st2
     else insert_changes (changeRecords (uuid e) (now e) (previousState_of cur' st1)
            (changes request)) st2 = Inr st'"
    by (rule commit_InrE)
  from cur cur' have [simp]: "cur' = Some cur" by simp
  from u(1) have ne: "changes request \<noteq> []" by auto
  have idv: "id_v v = uuid e" by (simp add: v new_version_row_def)
  have prev: "previousState_of (Some cur) st1 = getVersionState (id_v cur) st"
    using insert_version_business_state[OF st1]
    by (simp add: previousState_of_def getVersionState_def)
  from st3 ne have "context_changes st' = context_changes st2 @
      changeRecords (uuid e) (now e) (getVersionState (id_v cur) st) (changes request)"
    using prev by (simp add: insert_changes_Inr)
  moreover have "\<lparr>version_id_ch = uuid e, field_name_ch = name, old_value = JNull,
          new_value = field_value_u u, change_type = Update, source_ch = source_u u,
          created_at_ch = now e\<rparr>
      \<in> set (changeRecords (uuid e) (now e) (getVersionState (id_v cur) st) (changes request))"
    using u f falsy unfolding changeRecords_def set_map
    by (intro image_eqI[where x=u]) (auto simp: falsy_iff[symmetric])
  ultimately show ?thesis by (simp add: idv)
qed


theorem falsy_old_value_witness:
  "commit ex_platform ''u2'' ex_env_z ex_req_z ex_store_z = (Inr ex_vz2, ex_store_z2)
   \<and> getCurrentVersion ''u2'' ex_store_z = Inr (Some ex_vz)
   \<and> map_of (getVersionState (id_v ex_vz) ex_store_z) ''n'' = Some ex_fz
   \<and> field_value ex_fz = JNum 0
   \<and> \<lparr>version_id_ch = ''z2'', field_name_ch = ''n'', old_value = JNull,
        new_value = JNum 7, change_type = Update, source_ch = ApiTwitter,
        created_at_ch = 600\<rparr> \<in> set (context_changes ex_store_z2)"
proof -
  have c: "commit ex_platform ''u2'' ex_env_z ex_req_z ex_store_z = (Inr ex_vz2, ex_store_z2)"
    by (simp add: engine_defs ex_defs)
  have cur: "getCurrentVersion ''u2'' ex_store_z = Inr (Some ex_vz)"
    by (simp add: getCurrentVersion_def ex_store_z_def ex_vz_def)
  have f: "map_of (getVersionState (id_v ex_vz) ex_store_z) ''n'' = Some ex_fz"
    by (simp add: getVersionState_def ex_store_z_def ex_vz_def ex_fz_def)
  have z: "field_value ex_fz = JNum 0" by (simp add: ex_fz_def)
  have u: "ex_uz \<in> set (changes ex_req_z)" "field_name_u ex_uz = ''n''"
    by (simp_all add: ex_req_z_def ex_uz_def)
  from falsy_old_value[OF c cur f _ u] z
  have "\<lparr>version_id_ch = id_v ex_vz2, field_name_ch = ''n'', old_value = JNull,
          new_value = field_value_u ex_uz, change_type = Update, source_ch = source_u ex_uz,
          created_at_ch = now ex_env_z\<rparr> \<in> set (context_changes ex_store_z2)"
    by simp
  then have "\<lparr>version_id_ch = ''z2'', field_name_ch = ''n'', old_value = JNull,
        new_value = JNum 7, change_type = Update, source_ch = ApiTwitter,
        created_at_ch = 600\<rparr> \<in> set (context_changes ex_store_z2)"
    by (simp add: ex_vz2_def ex_uz_def ex_env_z_def)
  with c cur f z show ?thesis by simp
qed

section \<open>State at a time\<close>



section \<open>Diff\<close>

text \<open>
  Claim C7 says that \<^verbatim>\<open>diff\<close> classifies every field name of the two versions and can
  report the unchanged ones. The SQL function it calls raises the ambiguity error before it
  runs its query, and \<^verbatim>\<open>diff\<close> throws, for every pair of versions and on every store. In
  the example the first version holds \<open>a = 1\<close> and \<open>b = x\<close> and the second \<open>a = 2\<close> and
  \<open>b = x\<close>: the diff of the two is the error, so \<open>a\<close> is not marked as modified and
  \<open>b\<close> is not marked as unchanged. The query of the function, had it run, would have
  returned the row of \<open>a\<close> alone.
\<close>

theorem diff_fails:
  "version_fields ''v1'' ex_store2 = [(''a'', JNum 1), (''b'', JStr ''x'')]
   \<and> version_fields ''v2'' ex_store2 = [(''a'', JNum 2), (''b'', JStr ''x'')]
   \<and> diff 0 ''v1'' ''v2'' ex_store2 = Inl (FailedToCalculateDiff AmbiguousColumn)
   \<and> \<not> diff_marks 0 ''v1'' ''v2'' ex_store2 ''a'' Modified
   \<and> \<not> diff_marks 0 ''v1'' ''v2'' ex_store2 ''b'' Unchanged
   \<and> version_diff_query ''v1'' ''v2'' ex_store2 =
       [\<lparr>field_name_d = ''a'', old_value_d = Some (JNum 1), new_value_d = Some (JNum 2),
         change_type_d = Modified\<rparr>]
   \<and> (\<forall>today versionFromId versionToId st.
         diff today versionFromId versionToId st = Inl (FailedToCalculateDiff AmbiguousColumn))"
proof -
  have v1: "version_fields ''v1'' ex_store2 = [(''a'', JNum 1), (''b'', JStr ''x'')]"
    by (simp add: version_fields_def ex_defs)
  have v2: "version_fields ''v2'' ex_store2 = [(''a'', JNum 2), (''b'', JStr ''x'')]"
    by (simp add: version_fields_def ex_defs)
  have d: "diff today versionFromId versionToId st = Inl (FailedToCalculateDiff AmbiguousColumn)"
    for today versionFromId versionToId st
    by (simp add: diff_def calculate_version_diff_def unqualified_references_def
          ambiguous_def returns_table_def parameters_def business_state_columns_def)
  have q: "version_diff_query ''v1'' ''v2'' ex_store2 =
       [\<lparr>field_name_d = ''a'', old_value_d = Some (JNum 1), new_value_d = Some (JNum 2),
         change_type_d = Modified\<rparr>]"
    by (simp add: version_diff_query_fields v1 v2 full_outer_join_def diff_row_def)
  from v1 v2 q d show ?thesis by (simp add: diff_marks_def)
qed


section \<open>The version hash\<close>

text \<open>
  Claim C9 as stated fails: the text that is hashed ends with a \<^verbatim>\<open>Math.random()\<close> draw,
  so two computations for the same owner, message and time hash different texts. With a
  digest that tells the two texts apart the hashes differ.
\<close>

theorem generateVersionHash_counterexample:
  "generateVersionHash ex_platform ''u1'' ''init'' 1000 ''0.1''
     \<noteq> generateVersionHash ex_platform ''u1'' ''init'' 1000 ''0.2''"
  by (simp add: generateVersionHash_def ex_platform_def)

text \<open>
  Claim C9, amended. The hash is the digest of the text made of the owner, the message, the
  ISO rendering of the time and the random draw, in this order. Two computations whose texts
  are equal give the same hash. When the digest gives different texts different hashes, two
  hashes are equal exactly when the two texts are; so for the same owner, message and time
  the hashes are equal exactly when the random draws are.
\<close>

theorem generateVersionHash_content:
  "(userId @ commitMessage @ toISOString P timestamp @ rnd =
      userId' @ commitMessage' @ toISOString P timestamp' @ rnd'
    \<longrightarrow> generateVersionHash P userId commitMessage timestamp rnd =
        generateVersionHash P userId' commitMessage' timestamp' rnd')
   \<and> (inj (sha1_hex P) \<longrightarrow>
        (generateVersionHash P userId commitMessage timestamp rnd =
           generateVersionHash P userId' commitMessage' timestamp' rnd'
         \<longleftrightarrow> userId @ commitMessage @ toISOString P timestamp @ rnd =
               userId' @ commitMessage' @ toISOString P timestamp' @ rnd')
        \<and> (generateVersionHash P userId commitMessage timestamp rnd =
             generateVersionHash P userId commitMessage timestamp rnd'
           \<longleftrightarrow> rnd = rnd'))"
  by (auto simp: generateVersionHash_def dest: injD)

theorem generateVersionHash_content_witness:
  "inj (sha1_hex ex_platform)
   \<and> ''ab'' @ ''c'' @ toISOString ex_platform 1000 @ ''0.5'' =
       ''a'' @ ''bc'' @ toISOString ex_platform 1000 @ ''0.5''
   \<and> generateVersionHash ex_platform ''ab'' ''c'' 1000 ''0.5'' =
       generateVersionHash ex_platform ''a'' ''bc'' 1000 ''0.5''
   \<and> generateVersionHash ex_platform ''ab'' ''c'' 1000 ''0.5'' \<noteq>
       generateVersionHash ex_platform ''ab'' ''c'' 1000 ''0.7''"
proof -
  have i: "inj (sha1_hex ex_platform)"
    by (simp add: ex_platform_def inj_on_def)
  have h: "''ab'' @ ''c'' @ toISOString ex_platform 1000 @ ''0.5'' =
     ''a'' @ ''bc'' @ toISOString ex_platform 1000 @ ''0.5''"
    by simp
  from generateVersionHash_content[of "''ab''" "''c''" ex_platform 1000 "''0.5''"
      "''a''" "''bc''" 1000 "''0.5''"] h
  have e: "generateVersionHash ex_platform ''ab'' ''c'' 1000 ''0.5'' =
       generateVersionHash ex_platform ''a'' ''bc'' 1000 ''0.5''"
    by blast
  from generateVersionHash_content[of "''ab''" "''c''" ex_platform 1000 "''0.5''"
      "''ab''" "''c''" 1000 "''0.7''"] i
  have n: "generateVersionHash ex_platform ''ab'' ''c'' 1000 ''0.5'' \<noteq>
       generateVersionHash ex_platform ''ab'' ''c'' 1000 ''0.7''"
    by simp
  from i h e n show ?thesis by blast
qed

end
